theory Spec2Isabelle
  imports Main "HOL-Library.Char_ord" "HOL-Library.List_Lexorder"
begin

section \<open>Data model (src/types/index.ts, storage-service.ts)\<close>

text \<open>
  JavaScript numbers that hold ids, buildings, floors and timestamps are modelled as
  \<open>int\<close>. A property that may be missing on an object (\<open>id\<close> before the store assigns
  it, an optional argument) is an \<open>option\<close>. Field names that would clash between the
  records carry a suffix: \<open>id_room\<close>, \<open>id_emp\<close>, \<open>id_ar\<close>, \<open>id_pc\<close> are the \<open>id\<close>
  properties, \<open>employeeId_emp\<close> is the badge string of an Employee, and
  \<open>employeeId\<close>, \<open>roomId\<close> are the numeric fields of an AccessRight.
\<close>

record Room =
  id_room :: "int option"
  number :: string
  building :: int
  floor :: int

record Employee =
  id_emp :: "int option"
  lastName :: string
  firstName :: string
  middleName :: string
  employeeId_emp :: string
  accessRooms :: "int list"

record AccessRight =
  id_ar :: "int option"
  employeeId :: int
  roomId :: int

datatype operation = Create | Update | Delete | Grant | Revoke | Bulk

datatype entityType = RoomEntity | EmployeeEntity | AccessEntity

text \<open>
  The \<open>data: any\<close> payload of a PendingChange, one constructor for each shape the
  recorder writes: the entity itself (create, update), \<open>{id, room}\<close> and
  \<open>{id, employee}\<close> (delete), \<open>{id, employeeId, roomId}\<close> (grant),
  \<open>{employeeId, roomId}\<close> (revoke) and the three bulk lists.
\<close>

datatype payload =
    RoomData Room
  | EmployeeData Employee
  | DeletedRoom int "Room option"
  | DeletedEmployee int "Employee option"
  | GrantData int int int
  | RevokeData int int
  | BulkRooms "Room list"
  | BulkEmployees "Employee list"
  | BulkAccessRights "AccessRight list"

record PendingChange =
  id_pc :: string
  timestamp :: int
  operation :: operation
  entityType :: entityType
  data :: payload

text \<open>What \<open>addPendingChange\<close> receives: \<open>Omit<PendingChange, 'id' | 'timestamp'>\<close>.\<close>

record Change =
  op_c :: operation
  entity_c :: entityType
  data_c :: payload

datatype error = ConstraintError | DataError | NeverSettles

section \<open>Object stores with an in-line key and a key generator\<close>

text \<open>
  An IndexedDB object store created with \<open>{keyPath: 'id', autoIncrement: true}\<close>: the
  records in ascending key order, and the current number of the key generator (1 in a
  fresh store). \<open>add\<close> of a value without \<open>id\<close> takes the generator's number as key,
  writes it into the value and advances the generator; \<open>add\<close> of a value with \<open>id\<close>
  uses that key, fails with ConstraintError when the key is taken, and moves the
  generator past the key. Both fail with ConstraintError when a unique index would
  get a second entry (\<open>clash\<close>). \<open>put\<close> overwrites the record with the same key.
  \<open>delete\<close> of a key that is absent does nothing. The generator stops at
  \<open>2^53\<close>: a generator number above \<open>maxKey\<close> cannot be used as a key, so the \<open>add\<close>
  fails with ConstraintError, and a given key moves the generator to at most
  \<open>maxKey + 1\<close>.
\<close>

record 'v objectStore =
  rows :: "'v list"
  keyGen :: int

fun insertRow :: "('v \<Rightarrow> int option) \<Rightarrow> int \<Rightarrow> 'v \<Rightarrow> 'v list \<Rightarrow> 'v list" where
  "insertRow key k v [] = [v]"
| "insertRow key k v (w # ws) =
     (case key w of
        Some j \<Rightarrow> if k < j then v # w # ws else w # insertRow key k v ws
      | None \<Rightarrow> w # insertRow key k v ws)"

definition hasKey :: "('v \<Rightarrow> int option) \<Rightarrow> int \<Rightarrow> 'v list \<Rightarrow> bool" where
  "hasKey key k rs = list_ex (\<lambda>w. key w = Some k) rs"

definition store_get :: "('v \<Rightarrow> int option) \<Rightarrow> int \<Rightarrow> 'v objectStore \<Rightarrow> 'v option" where
  "store_get key k st = find (\<lambda>w. key w = Some k) (rows st)"

definition store_delete :: "('v \<Rightarrow> int option) \<Rightarrow> int \<Rightarrow> 'v objectStore \<Rightarrow> 'v objectStore" where
  "store_delete key k st = st\<lparr>rows := filter (\<lambda>w. key w \<noteq> Some k) (rows st)\<rparr>"

definition maxKey :: int where
  "maxKey = 9007199254740992"

definition bumpKeyGen :: "int \<Rightarrow> int \<Rightarrow> int" where
  "bumpKeyGen k g = (let v = min k maxKey in if g \<le> v then v + 1 else g)"

definition store_add ::
  "('v \<Rightarrow> int option) \<Rightarrow> (int \<Rightarrow> 'v \<Rightarrow> 'v) \<Rightarrow> ('v \<Rightarrow> 'v \<Rightarrow> bool) \<Rightarrow> 'v \<Rightarrow> 'v objectStore
     \<Rightarrow> error + (int \<times> 'v objectStore)" where
  "store_add key setKey clash v st =
     (case key v of
        None \<Rightarrow>
          (let k = keyGen st in
           if maxKey < k then Inl ConstraintError
           else if hasKey key k (rows st) \<or> list_ex (clash v) (rows st)
           then Inl ConstraintError
           else Inr (k, \<lparr>rows = insertRow key k (setKey k v) (rows st), keyGen = k + 1\<rparr>))
      | Some k \<Rightarrow>
          if hasKey key k (rows st) \<or> list_ex (clash v) (rows st) then Inl ConstraintError
          else Inr (k, \<lparr>rows = insertRow key k v (rows st), keyGen = bumpKeyGen k (keyGen st)\<rparr>))"

definition store_put ::
  "('v \<Rightarrow> int option) \<Rightarrow> (int \<Rightarrow> 'v \<Rightarrow> 'v) \<Rightarrow> ('v \<Rightarrow> 'v \<Rightarrow> bool) \<Rightarrow> 'v \<Rightarrow> 'v objectStore
     \<Rightarrow> error + (int \<times> 'v objectStore)" where
  "store_put key setKey clash v st =
     (case key v of
        None \<Rightarrow> store_add key setKey clash v st
      | Some k \<Rightarrow>
          (let others = filter (\<lambda>w. key w \<noteq> Some k) (rows st) in
           if list_ex (clash v) others then Inl ConstraintError
           else Inr (k, \<lparr>rows = insertRow key k v others, keyGen = bumpKeyGen k (keyGen st)\<rparr>)))"

text \<open>The unique indexes of \<open>connect\<close>: none on rooms, \<open>employeeId\<close> on employees,
  \<open>unique_access\<close> on \<open>[employeeId, roomId]\<close> of accessRights.\<close>

definition roomClash :: "Room \<Rightarrow> Room \<Rightarrow> bool" where
  "roomClash v w = False"

definition employeeClash :: "Employee \<Rightarrow> Employee \<Rightarrow> bool" where
  "employeeClash v w = (employeeId_emp v = employeeId_emp w)"

definition accessClash :: "AccessRight \<Rightarrow> AccessRight \<Rightarrow> bool" where
  "accessClash v w = (employeeId v = employeeId w \<and> roomId v = roomId w)"

definition setRoomId :: "int \<Rightarrow> Room \<Rightarrow> Room" where
  "setRoomId k r = r\<lparr>id_room := Some k\<rparr>"

definition setEmployeeId :: "int \<Rightarrow> Employee \<Rightarrow> Employee" where
  "setEmployeeId k e = e\<lparr>id_emp := Some k\<rparr>"

definition setAccessId :: "int \<Rightarrow> AccessRight \<Rightarrow> AccessRight" where
  "setAccessId k a = a\<lparr>id_ar := Some k\<rparr>"

text \<open>The database \<open>KeyManagementDB\<close>: three keyed stores and the pending changes,
  whose key is the string \<open>id\<close> (no generator), kept in ascending key order.\<close>

record Database =
  rooms :: "Room objectStore"
  employees :: "Employee objectStore"
  accessRights :: "AccessRight objectStore"
  pendingChanges :: "PendingChange list"

definition emptyStore :: "'v objectStore" where
  "emptyStore = \<lparr>rows = [], keyGen = 1\<rparr>"

definition emptyDatabase :: Database where
  "emptyDatabase =
     \<lparr>rooms = emptyStore, employees = emptyStore, accessRights = emptyStore,
      pendingChanges = []\<rparr>"

section \<open>IndexedDBService (src/services/indexed-db-service.ts)\<close>

text \<open>
  The class modelled here is IndexedDBService. The React provider in
  src/contexts/data-context.tsx repeats the same operations over the same four
  stores; it differs in that it returns \<open>false\<close>, \<open>[]\<close> or \<open>null\<close> while the database
  is not open, that its \<open>deleteRoom\<close> and \<open>deleteEmployee\<close> read the rows to delete
  from the \<open>roomId\<close> and \<open>employeeId\<close> indexes directly, and that its \<open>revokeAccess\<close>
  writes the employee with \<open>db.put\<close> instead of calling \<open>updateEmployee\<close>.
\<close>

text \<open>An optional numeric argument tested by \<open>if (x)\<close>: \<open>undefined\<close> and \<open>0\<close> are falsy.\<close>

definition truthy :: "int option \<Rightarrow> bool" where
  "truthy x = (case x of None \<Rightarrow> False | Some n \<Rightarrow> n \<noteq> 0)"

text \<open>\<open>addPendingChange\<close>: the id comes from \<open>crypto.randomUUID()\<close> and the timestamp
  from \<open>Date.now()\<close>; both are arguments here (\<open>stamp\<close>). \<open>store.add\<close> fails when
  the key is already in the store.\<close>

definition addPendingChange :: "string \<times> int \<Rightarrow> Change \<Rightarrow> Database \<Rightarrow> error + Database" where
  "addPendingChange stamp change db =
     (let pendingChange =
            \<lparr>id_pc = fst stamp, timestamp = snd stamp, operation = op_c change,
             entityType = entity_c change, data = data_c change\<rparr>
      in if list_ex (\<lambda>p. id_pc p = fst stamp) (pendingChanges db) then Inl ConstraintError
         else Inr (db\<lparr>pendingChanges := insort_key id_pc pendingChange (pendingChanges db)\<rparr>))"

definition getRooms :: "int option \<Rightarrow> Database \<Rightarrow> Room list" where
  "getRooms buildingId db =
     (if truthy buildingId
      then filter (\<lambda>r. Some (building r) = buildingId) (rows (rooms db))
      else rows (rooms db))"

definition getRoomById :: "int \<Rightarrow> Database \<Rightarrow> Room option" where
  "getRoomById rid db = store_get id_room rid (rooms db)"

definition getEmployeeById :: "int \<Rightarrow> Database \<Rightarrow> Employee option" where
  "getEmployeeById eid db = store_get id_emp eid (employees db)"

definition getAccessRights :: "int option \<Rightarrow> int option \<Rightarrow> Database \<Rightarrow> AccessRight list" where
  "getAccessRights rid eid db =
     (if truthy rid \<and> truthy eid
      then filter (\<lambda>a. Some (employeeId a) = eid \<and> Some (roomId a) = rid) (rows (accessRights db))
      else if truthy rid
      then filter (\<lambda>a. Some (roomId a) = rid) (rows (accessRights db))
      else if truthy eid
      then filter (\<lambda>a. Some (employeeId a) = eid) (rows (accessRights db))
      else rows (accessRights db))"

text \<open>
  The mutations. Each \<open>await this.transaction(...)\<close> is one request on one store; a
  rejected request throws, which the \<open>try/catch\<close> of the caller turns into the result
  \<open>false\<close> (createRoom and createEmployee have no \<open>try/catch\<close> and reject). Nothing
  is rolled back across requests, so the database a failed call leaves behind is part
  of the result. A call that records pending changes takes one \<open>stamp\<close> per
  \<open>addPendingChange\<close> it can reach.
\<close>

definition createRoom :: "string \<times> int \<Rightarrow> Room \<Rightarrow> Database \<Rightarrow> (error + Room) \<times> Database" where
  "createRoom stamp room db =
     (case store_add id_room setRoomId roomClash room (rooms db) of
        Inl e \<Rightarrow> (Inl e, db)
      | Inr (newRoom, st) \<Rightarrow>
          (let db1 = db\<lparr>rooms := st\<rparr>;
               createdRoom = room\<lparr>id_room := Some newRoom\<rparr>
           in case addPendingChange stamp
                     \<lparr>op_c = Create, entity_c = RoomEntity, data_c = RoomData createdRoom\<rparr> db1 of
                Inl e \<Rightarrow> (Inl e, db1)
              | Inr db2 \<Rightarrow> (Inr createdRoom, db2)))"

definition updateRoom :: "string \<times> int \<Rightarrow> Room \<Rightarrow> Database \<Rightarrow> bool \<times> Database" where
  "updateRoom stamp room db =
     (case store_put id_room setRoomId roomClash room (rooms db) of
        Inl e \<Rightarrow> (False, db)
      | Inr (k, st) \<Rightarrow>
          (let db1 = db\<lparr>rooms := st\<rparr>
           in case addPendingChange stamp
                     \<lparr>op_c = Update, entity_c = RoomEntity, data_c = RoomData room\<rparr> db1 of
                Inl e \<Rightarrow> (False, db1)
              | Inr db2 \<Rightarrow> (True, db2)))"

text \<open>The loop \<open>for (const access of accessRights) accessStore.delete(access.id)\<close>;
  \<open>delete(undefined)\<close> throws DataError, and the deletions before it stay.\<close>

fun deleteAccessRows ::
  "AccessRight list \<Rightarrow> AccessRight objectStore \<Rightarrow> error option \<times> AccessRight objectStore" where
  "deleteAccessRows [] st = (None, st)"
| "deleteAccessRows (a # as) st =
     (case id_ar a of
        None \<Rightarrow> (Some DataError, st)
      | Some k \<Rightarrow> deleteAccessRows as (store_delete id_ar k st))"

definition deleteRoom :: "string \<times> int \<Rightarrow> int \<Rightarrow> Database \<Rightarrow> bool \<times> Database" where
  "deleteRoom stamp rid db =
     (let room = getRoomById rid db;
          db1 = db\<lparr>rooms := store_delete id_room rid (rooms db)\<rparr>;
          found = getAccessRights (Some rid) None db1;
          res = deleteAccessRows found (accessRights db1);
          db2 = db1\<lparr>accessRights := snd res\<rparr>
      in case fst res of
           Some e \<Rightarrow> (False, db2)
         | None \<Rightarrow>
             (case addPendingChange stamp
                     \<lparr>op_c = Delete, entity_c = RoomEntity, data_c = DeletedRoom rid room\<rparr> db2 of
                Inl e \<Rightarrow> (False, db2)
              | Inr db3 \<Rightarrow> (True, db3)))"

definition createEmployee ::
  "string \<times> int \<Rightarrow> Employee \<Rightarrow> Database \<Rightarrow> (error + Employee) \<times> Database" where
  "createEmployee stamp employee db =
     (case store_add id_emp setEmployeeId employeeClash employee (employees db) of
        Inl e \<Rightarrow> (Inl e, db)
      | Inr (newEmployeeId, st) \<Rightarrow>
          (let db1 = db\<lparr>employees := st\<rparr>;
               createdEmployee = employee\<lparr>id_emp := Some newEmployeeId\<rparr>
           in case addPendingChange stamp
                     \<lparr>op_c = Create, entity_c = EmployeeEntity,
                      data_c = EmployeeData createdEmployee\<rparr> db1 of
                Inl e \<Rightarrow> (Inl e, db1)
              | Inr db2 \<Rightarrow> (Inr createdEmployee, db2)))"

definition updateEmployee :: "string \<times> int \<Rightarrow> Employee \<Rightarrow> Database \<Rightarrow> bool \<times> Database" where
  "updateEmployee stamp employee db =
     (case store_put id_emp setEmployeeId employeeClash employee (employees db) of
        Inl e \<Rightarrow> (False, db)
      | Inr (k, st) \<Rightarrow>
          (let db1 = db\<lparr>employees := st\<rparr>
           in case addPendingChange stamp
                     \<lparr>op_c = Update, entity_c = EmployeeEntity, data_c = EmployeeData employee\<rparr>
                     db1 of
                Inl e \<Rightarrow> (False, db1)
              | Inr db2 \<Rightarrow> (True, db2)))"

definition deleteEmployee :: "string \<times> int \<Rightarrow> int \<Rightarrow> Database \<Rightarrow> bool \<times> Database" where
  "deleteEmployee stamp eid db =
     (let employee = getEmployeeById eid db;
          db1 = db\<lparr>employees := store_delete id_emp eid (employees db)\<rparr>;
          found = getAccessRights None (Some eid) db1;
          res = deleteAccessRows found (accessRights db1);
          db2 = db1\<lparr>accessRights := snd res\<rparr>
      in case fst res of
           Some e \<Rightarrow> (False, db2)
         | None \<Rightarrow>
             (case addPendingChange stamp
                     \<lparr>op_c = Delete, entity_c = EmployeeEntity,
                      data_c = DeletedEmployee eid employee\<rparr> db2 of
                Inl e \<Rightarrow> (False, db2)
              | Inr db3 \<Rightarrow> (True, db3)))"

text \<open>\<open>grantAccess\<close>: \<open>stamp1\<close> serves the \<open>updateEmployee\<close> it may call (whose
  boolean result it does not read), \<open>stamp2\<close> its own \<open>addPendingChange\<close>.\<close>

definition grantAccess ::
  "string \<times> int \<Rightarrow> string \<times> int \<Rightarrow> int \<Rightarrow> int \<Rightarrow> Database \<Rightarrow> bool \<times> Database" where
  "grantAccess stamp1 stamp2 eid rid db =
     (let existingAccess = getAccessRights (Some rid) (Some eid) db in
      if existingAccess \<noteq> [] then (True, db)
      else
        (case store_add id_ar setAccessId accessClash
                \<lparr>id_ar = None, employeeId = eid, roomId = rid\<rparr> (accessRights db) of
           Inl e \<Rightarrow> (False, db)
         | Inr (accessId, st) \<Rightarrow>
             (let db1 = db\<lparr>accessRights := st\<rparr>;
                  db2 = (case getEmployeeById eid db1 of
                           None \<Rightarrow> db1
                         | Some employee \<Rightarrow>
                             if rid \<in> set (accessRooms employee) then db1
                             else snd (updateEmployee stamp1
                                         (employee\<lparr>accessRooms := accessRooms employee @ [rid]\<rparr>)
                                         db1))
              in case addPendingChange stamp2
                        \<lparr>op_c = Grant, entity_c = AccessEntity,
                         data_c = GrantData accessId eid rid\<rparr> db2 of
                   Inl e \<Rightarrow> (False, db2)
                 | Inr db3 \<Rightarrow> (True, db3))))"

definition revokeAccess ::
  "string \<times> int \<Rightarrow> string \<times> int \<Rightarrow> int \<Rightarrow> int \<Rightarrow> Database \<Rightarrow> bool \<times> Database" where
  "revokeAccess stamp1 stamp2 eid rid db =
     (let found = getAccessRights (Some rid) (Some eid) db in
      if found = [] then (True, db)
      else
        (let res = deleteAccessRows found (accessRights db);
             db1 = db\<lparr>accessRights := snd res\<rparr>
         in case fst res of
              Some e \<Rightarrow> (False, db1)
            | None \<Rightarrow>
                (let db2 = (case getEmployeeById eid db1 of
                              None \<Rightarrow> db1
                            | Some employee \<Rightarrow>
                                snd (updateEmployee stamp1
                                       (employee\<lparr>accessRooms :=
                                                   filter (\<lambda>i. i \<noteq> rid) (accessRooms employee)\<rparr>)
                                       db1))
                 in case addPendingChange stamp2
                           \<lparr>op_c = Revoke, entity_c = AccessEntity,
                            data_c = RevokeData eid rid\<rparr> db2 of
                      Inl e \<Rightarrow> (False, db2)
                    | Inr db3 \<Rightarrow> (True, db3))))"

text \<open>
  The bulk imports: every \<open>store.add\<close> runs in one transaction. A failing request
  aborts the transaction, which undoes the adds before it, and \<open>transaction.onerror\<close>
  rejects. On completion the pending change is recorded and the promise resolves in
  its \<open>then\<close>; when \<open>addPendingChange\<close> rejects there, the promise is never settled.
\<close>

fun addAll ::
  "('v \<Rightarrow> int option) \<Rightarrow> (int \<Rightarrow> 'v \<Rightarrow> 'v) \<Rightarrow> ('v \<Rightarrow> 'v \<Rightarrow> bool) \<Rightarrow> 'v list \<Rightarrow> 'v objectStore
     \<Rightarrow> error + 'v objectStore" where
  "addAll key setKey clash [] st = Inr st"
| "addAll key setKey clash (v # vs) st =
     (case store_add key setKey clash v st of
        Inl e \<Rightarrow> Inl e
      | Inr (k, st') \<Rightarrow> addAll key setKey clash vs st')"

definition bulkImportRooms ::
  "string \<times> int \<Rightarrow> Room list \<Rightarrow> Database \<Rightarrow> (error + nat) \<times> Database" where
  "bulkImportRooms stamp rs db =
     (case addAll id_room setRoomId roomClash rs (rooms db) of
        Inl e \<Rightarrow> (Inl e, db)
      | Inr st \<Rightarrow>
          (let db1 = db\<lparr>rooms := st\<rparr>
           in case addPendingChange stamp
                     \<lparr>op_c = Bulk, entity_c = RoomEntity, data_c = BulkRooms rs\<rparr> db1 of
                Inl e \<Rightarrow> (Inl NeverSettles, db1)
              | Inr db2 \<Rightarrow> (Inr (length rs), db2)))"

definition bulkImportEmployees ::
  "string \<times> int \<Rightarrow> Employee list \<Rightarrow> Database \<Rightarrow> (error + nat) \<times> Database" where
  "bulkImportEmployees stamp es db =
     (case addAll id_emp setEmployeeId employeeClash es (employees db) of
        Inl e \<Rightarrow> (Inl e, db)
      | Inr st \<Rightarrow>
          (let db1 = db\<lparr>employees := st\<rparr>
           in case addPendingChange stamp
                     \<lparr>op_c = Bulk, entity_c = EmployeeEntity, data_c = BulkEmployees es\<rparr> db1 of
                Inl e \<Rightarrow> (Inl NeverSettles, db1)
              | Inr db2 \<Rightarrow> (Inr (length es), db2)))"

definition bulkImportAccessRights ::
  "string \<times> int \<Rightarrow> AccessRight list \<Rightarrow> Database \<Rightarrow> (error + nat) \<times> Database" where
  "bulkImportAccessRights stamp as db =
     (case addAll id_ar setAccessId accessClash as (accessRights db) of
        Inl e \<Rightarrow> (Inl e, db)
      | Inr st \<Rightarrow>
          (let db1 = db\<lparr>accessRights := st\<rparr>
           in case addPendingChange stamp
                     \<lparr>op_c = Bulk, entity_c = AccessEntity, data_c = BulkAccessRights as\<rparr>
                     db1 of
                Inl e \<Rightarrow> (Inl NeverSettles, db1)
              | Inr db2 \<Rightarrow> (Inr (length as), db2)))"

definition getPendingChanges :: "Database \<Rightarrow> PendingChange list" where
  "getPendingChanges db = pendingChanges db"

definition deletePendingChange :: "string \<Rightarrow> Database \<Rightarrow> bool \<times> Database" where
  "deletePendingChange i db =
     (True, db\<lparr>pendingChanges := filter (\<lambda>p. id_pc p \<noteq> i) (pendingChanges db)\<rparr>)"

section \<open>ServerApiService (src/services/server-api-service.ts)\<close>

text \<open>
  The remote side is a parameter: \<open>net m p n\<close> is what \<open>apiRequest\<close> does for the
  request that method \<open>m\<close> builds from the payload \<open>p\<close> when the remote is in state
  \<open>n\<close>: \<open>True\<close> when the promise resolves, \<open>False\<close> when it rejects (no connection,
  a status that is not ok, the 10 second timeout), and the remote's next state.
  \<open>createRoom\<close> and \<open>createEmployee\<close> return the promise of \<open>apiRequest\<close> as it is;
  the other nine methods wrap it in \<open>try { ...; return true } catch { return false }\<close>
  (\<open>result.count\<close> and \<open>0\<close> for the bulk methods).
\<close>

datatype apiMethod =
    ApiCreateRoom | ApiUpdateRoom | ApiDeleteRoom
  | ApiCreateEmployee | ApiUpdateEmployee | ApiDeleteEmployee
  | ApiGrantAccess | ApiRevokeAccess
  | ApiBulkImportRooms | ApiBulkImportEmployees | ApiBulkImportAccessRights

datatype apiResult = Threw | Returned bool

type_synonym 'n network = "apiMethod \<Rightarrow> payload \<Rightarrow> 'n \<Rightarrow> bool \<times> 'n"

definition uncaught :: "'n network \<Rightarrow> apiMethod \<Rightarrow> payload \<Rightarrow> 'n \<Rightarrow> apiResult \<times> 'n" where
  "uncaught net m p n =
     (let r = net m p n in (if fst r then Returned True else Threw, snd r))"

definition caught :: "'n network \<Rightarrow> apiMethod \<Rightarrow> payload \<Rightarrow> 'n \<Rightarrow> apiResult \<times> 'n" where
  "caught net m p n = (let r = net m p n in (Returned (fst r), snd r))"

fun serverApi :: "'n network \<Rightarrow> apiMethod \<Rightarrow> payload \<Rightarrow> 'n \<Rightarrow> apiResult \<times> 'n" where
  "serverApi net ApiCreateRoom p n = uncaught net ApiCreateRoom p n"
| "serverApi net ApiCreateEmployee p n = uncaught net ApiCreateEmployee p n"
| "serverApi net m p n = caught net m p n"

section \<open>SyncService (src/services/sync-service.ts)\<close>

record SyncService =
  isSyncing :: bool
  lastSyncTime :: int

text \<open>\<open>processChange\<close> awaits the method chosen by \<open>(operation, entityType)\<close> and
  does not read what it returns; the result here is \<open>True\<close> when \<open>processChange\<close>
  returns and \<open>False\<close> when it throws. A pair without a branch calls nothing.\<close>

definition replay :: "'n network \<Rightarrow> apiMethod \<Rightarrow> PendingChange \<Rightarrow> 'n \<Rightarrow> bool \<times> 'n" where
  "replay net m change n =
     (let r = serverApi net m (data change) n in (fst r \<noteq> Threw, snd r))"

definition processChange :: "'n network \<Rightarrow> PendingChange \<Rightarrow> 'n \<Rightarrow> bool \<times> 'n" where
  "processChange net change n =
     (case operation change of
        Create \<Rightarrow>
          if entityType change = RoomEntity then replay net ApiCreateRoom change n
          else if entityType change = EmployeeEntity then replay net ApiCreateEmployee change n
          else (True, n)
      | Update \<Rightarrow>
          if entityType change = RoomEntity then replay net ApiUpdateRoom change n
          else if entityType change = EmployeeEntity then replay net ApiUpdateEmployee change n
          else (True, n)
      | Delete \<Rightarrow>
          if entityType change = RoomEntity then replay net ApiDeleteRoom change n
          else if entityType change = EmployeeEntity then replay net ApiDeleteEmployee change n
          else (True, n)
      | Grant \<Rightarrow>
          if entityType change = AccessEntity then replay net ApiGrantAccess change n
          else (True, n)
      | Revoke \<Rightarrow>
          if entityType change = AccessEntity then replay net ApiRevokeAccess change n
          else (True, n)
      | Bulk \<Rightarrow>
          if entityType change = RoomEntity then replay net ApiBulkImportRooms change n
          else if entityType change = EmployeeEntity
          then replay net ApiBulkImportEmployees change n
          else if entityType change = AccessEntity
          then replay net ApiBulkImportAccessRights change n
          else (True, n))"

text \<open>The loop of \<open>syncToServer\<close>: a change whose \<open>processChange\<close> returns is deleted
  from the pending store, one whose \<open>processChange\<close> throws is skipped.\<close>

fun processAll ::
  "'n network \<Rightarrow> PendingChange list \<Rightarrow> Database \<times> 'n \<Rightarrow> Database \<times> 'n" where
  "processAll net [] s = s"
| "processAll net (change # cs) s =
     (let r = processChange net change (snd s) in
      if fst r then processAll net cs (snd (deletePendingChange (id_pc change) (fst s)), snd r)
      else processAll net cs (fst s, snd r))"

text \<open>What can throw inside the outer \<open>try\<close> blocks of \<open>syncToServer\<close> and
  \<open>syncFromServer\<close>, given for one call: the promise of \<open>getPendingChanges\<close> rejects
  (the read of the pending store fails), and \<open>localStorage.setItem\<close> throws (quota,
  storage not available). The \<open>catch\<close> resets \<open>isSyncing\<close> and returns \<open>false\<close>.\<close>

record StorageFaults =
  readRejects :: bool
  setItemThrows :: bool

text \<open>\<open>syncToServer\<close>; \<open>online\<close> is \<open>navigator.onLine\<close>, \<open>now\<close> the \<open>Date.now()\<close> read
  after the loop. \<open>Array.prototype.sort\<close> is stable, as \<open>sort_key\<close> is. The field
  \<open>lastSyncTime\<close> is assigned before \<open>localStorage.setItem\<close> is called.\<close>

definition syncToServer ::
  "bool \<Rightarrow> int \<Rightarrow> StorageFaults \<Rightarrow> 'n network \<Rightarrow> SyncService \<times> Database \<times> 'n
     \<Rightarrow> bool \<times> SyncService \<times> Database \<times> 'n" where
  "syncToServer online now faults net w =
     (let svc = fst w; db = fst (snd w); n = snd (snd w) in
      if \<not> online \<or> isSyncing svc then (False, svc, db, n)
      else if readRejects faults then (False, svc\<lparr>isSyncing := False\<rparr>, db, n)
      else
        (let pending = getPendingChanges db in
         if pending = [] then (True, svc\<lparr>isSyncing := False\<rparr>, db, n)
         else
           (let r = processAll net (sort_key timestamp pending) (db, n)
            in if setItemThrows faults
               then (False, svc\<lparr>isSyncing := False, lastSyncTime := now\<rparr>, fst r, snd r)
               else (True, svc\<lparr>isSyncing := False, lastSyncTime := now\<rparr>, fst r, snd r))))"

text \<open>\<open>syncFromServer\<close>. The three GET requests are given by their outcomes: the
  promise rejects, resolves with something that is not an array, or resolves with an
  array. A bulk import that rejects is caught and logged; one that never settles
  leaves \<open>syncFromServer\<close> waiting, which is the result \<open>None\<close>. Of the storage
  faults only \<open>setItemThrows\<close> can occur here.\<close>

datatype 'a response = Rejects | NotArray | Items "'a list"

definition fetched :: "'a response \<Rightarrow> 'a list" where
  "fetched r = (case r of Items xs \<Rightarrow> xs | _ \<Rightarrow> [])"

definition importStep :: "(error + nat) \<times> Database \<Rightarrow> Database option" where
  "importStep r = (case fst r of Inl NeverSettles \<Rightarrow> None | _ \<Rightarrow> Some (snd r))"

definition syncFromServer ::
  "bool \<Rightarrow> int \<Rightarrow> StorageFaults \<Rightarrow> string \<times> int \<Rightarrow> string \<times> int \<Rightarrow> string \<times> int
     \<Rightarrow> Room response \<Rightarrow> Employee response \<Rightarrow> AccessRight response
     \<Rightarrow> SyncService \<times> Database \<Rightarrow> (bool \<times> SyncService \<times> Database) option" where
  "syncFromServer online now faults stamp1 stamp2 stamp3 roomsResponse employeesResponse
       accessRightsResponse w =
     (let svc = fst w; db = snd w in
      if \<not> online \<or> isSyncing svc then Some (False, svc, db)
      else
        (let rs = fetched roomsResponse;
             es = fetched employeesResponse;
             as = fetched accessRightsResponse
         in case (if rs \<noteq> [] then importStep (bulkImportRooms stamp1 rs db) else Some db) of
              None \<Rightarrow> None
            | Some db1 \<Rightarrow>
           (case (if es \<noteq> [] then importStep (bulkImportEmployees stamp2 es db1)
                  else Some db1) of
              None \<Rightarrow> None
            | Some db2 \<Rightarrow>
           (case (if as \<noteq> [] then importStep (bulkImportAccessRights stamp3 as db2)
                  else Some db2) of
              None \<Rightarrow> None
            | Some db3 \<Rightarrow>
                if rs \<noteq> [] \<or> es \<noteq> [] \<or> as \<noteq> []
                then if setItemThrows faults
                     then Some (False, svc\<lparr>isSyncing := False, lastSyncTime := now\<rparr>, db3)
                     else Some (True, svc\<lparr>isSyncing := False, lastSyncTime := now\<rparr>, db3)
                else Some (True, svc\<lparr>isSyncing := False\<rparr>, db3)))))"

section \<open>What a drain of the outbox completes\<close>

text \<open>The ids of the changes for which \<open>processChange\<close> returns during the loop of
  \<open>syncToServer\<close>, and a remote without state, given by the success of each request.\<close>

fun completedIds :: "'n network \<Rightarrow> PendingChange list \<Rightarrow> 'n \<Rightarrow> string list" where
  "completedIds net [] n = []"
| "completedIds net (change # cs) n =
     (let r = processChange net change n in
      if fst r then id_pc change # completedIds net cs (snd r)
      else completedIds net cs (snd r))"


definition stateless :: "(apiMethod \<Rightarrow> payload \<Rightarrow> bool) \<Rightarrow> unit network" where
  "stateless ok m p n = (ok m p, n)"


section \<open>Well-formed databases and the access invariant\<close>

text \<open>
  What IndexedDB guarantees of a store: every record carries its key, no key occurs
  twice, and the key generator is above every key (above \<open>maxKey\<close> for the keys that
  are larger than \<open>maxKey\<close>); the unique indexes hold; the ids of the pending changes
  are distinct.
\<close>

definition keysOk :: "('v \<Rightarrow> int option) \<Rightarrow> 'v objectStore \<Rightarrow> bool" where
  "keysOk key st =
     (list_all (\<lambda>w. case key w of None \<Rightarrow> False | Some k \<Rightarrow> min k maxKey < keyGen st)
        (rows st)
      \<and> distinct (map key (rows st)))"

definition wellFormed :: "Database \<Rightarrow> bool" where
  "wellFormed db =
     (keysOk id_room (rooms db)
      \<and> keysOk id_emp (employees db)
      \<and> distinct (map employeeId_emp (rows (employees db)))
      \<and> keysOk id_ar (accessRights db)
      \<and> distinct (map (\<lambda>a. (employeeId a, roomId a)) (rows (accessRights db)))
      \<and> distinct (map id_pc (pendingChanges db)))"

text \<open>The invariant of the access relation: for every stored employee, the set of
  ids in \<open>accessRooms\<close> is the set of \<open>roomId\<close>s of the AccessRight rows of that
  employee.\<close>

definition accessRoomsAgree :: "Database \<Rightarrow> bool" where
  "accessRoomsAgree db =
     list_all
       (\<lambda>e. set (accessRooms e) =
             set (map roomId
                    (filter (\<lambda>a. Some (employeeId a) = id_emp e) (rows (accessRights db)))))
       (rows (employees db))"

section \<open>Example runs\<close>

text \<open>Room 101 of building 1 and employee EMP001, as the forms hand them to
  \<open>createRoom\<close> and \<open>createEmployee\<close>, and the databases that a fresh database
  reaches by creating the room, then the employee, then granting the access.\<close>

definition exRoom :: Room where
  "exRoom = \<lparr>id_room = None, number = ''101'', building = 1, floor = 1\<rparr>"

definition exEmployee :: Employee where
  "exEmployee =
     \<lparr>id_emp = None, lastName = ''Ivanov'', firstName = ''Ivan'', middleName = ''Ivanovich'',
      employeeId_emp = ''EMP001'', accessRooms = []\<rparr>"

definition dbRoom :: Database where
  "dbRoom = snd (createRoom (''c1'', 1000) exRoom emptyDatabase)"

definition dbStaff :: Database where
  "dbStaff = snd (createEmployee (''c2'', 1001) exEmployee dbRoom)"

definition dbGranted :: Database where
  "dbGranted = snd (grantAccess (''c3'', 1002) (''c4'', 1003) 1 1 dbStaff)"

text \<open>The same database after the import of a room whose id is 0.\<close>

definition dbZero :: Database where
  "dbZero =
     snd (bulkImportRooms (''c5'', 1004)
            [\<lparr>id_room = Some 0, number = ''100'', building = 1, floor = 1\<rparr>] dbGranted)"

text \<open>The database \<open>dbGranted\<close> after the employee has been saved with an empty
  \<open>accessRooms\<close> (\<open>updateEmployee\<close> stores the list it is given).\<close>

definition dbStale :: Database where
  "dbStale =
     snd (updateEmployee (''c5'', 1004) (exEmployee\<lparr>id_emp := Some 1, accessRooms := []\<rparr>)
            dbGranted)"

text \<open>An outbox of three entries: create room, update room, create employee.\<close>

definition dbOutbox :: Database where
  "dbOutbox =
     snd (createEmployee (''c3'', 1002) exEmployee
            (snd (updateRoom (''c2'', 1001) (exRoom\<lparr>id_room := Some 1, floor := 2\<rparr>) dbRoom)))"

text \<open>A remote on which every \<open>PUT rooms/{id}\<close> fails and everything else succeeds,
  and one on which every request fails.\<close>

definition failingUpdate :: "unit network" where
  "failingUpdate m p n = (m \<noteq> ApiUpdateRoom, n)"

definition failingAll :: "unit network" where
  "failingAll m p n = (False, n)"

definition idle :: SyncService where
  "idle = \<lparr>isSyncing = False, lastSyncTime = 0\<rparr>"

text \<open>A call during which the storage works, one during which
  \<open>localStorage.setItem\<close> throws, and one during which the read of the pending store
  fails.\<close>

definition noFaults :: StorageFaults where
  "noFaults = \<lparr>readRejects = False, setItemThrows = False\<rparr>"

definition quotaExceeded :: StorageFaults where
  "quotaExceeded = \<lparr>readRejects = False, setItemThrows = True\<rparr>"

definition readFailure :: StorageFaults where
  "readFailure = \<lparr>readRejects = True, setItemThrows = False\<rparr>"

text \<open>A remote on which every request succeeds.\<close>

definition succeedingAll :: "unit network" where
  "succeedingAll m p n = (True, n)"

text \<open>The rooms a remote returns: room 101 with the id 1.\<close>

definition serverRooms :: "Room list" where
  "serverRooms = [\<lparr>id_room = Some 1, number = ''101'', building = 1, floor = 1\<rparr>]"

text \<open>The employees and access rights a remote returns.\<close>

definition serverEmployees :: "Employee list" where
  "serverEmployees = [exEmployee\<lparr>id_emp := Some 1, accessRooms := [1]\<rparr>]"

definition serverAccessRights :: "AccessRight list" where
  "serverAccessRights = [\<lparr>id_ar = Some 1, employeeId = 1, roomId = 1\<rparr>]"

section \<open>Facts about the stores\<close>

lemma keysOk_no_keyGen:
  "keysOk key st \<Longrightarrow> keyGen st \<le> maxKey \<Longrightarrow> \<not> hasKey key (keyGen st) (rows st)"
  by (force simp: keysOk_def hasKey_def list_all_iff list_ex_iff min_def
      split: option.splits if_splits)

lemma keysOk_keyed: "keysOk key st \<Longrightarrow> w \<in> set (rows st) \<Longrightarrow> key w \<noteq> None"
  by (auto simp: keysOk_def list_all_iff split: option.splits)

lemma filter_insertRow_length:
  "length (filter P (insertRow key k v rs)) = length (filter P (v # rs))"
  by (induction rs) (auto split: option.splits)

lemma set_insertRow: "set (insertRow key k v rs) = insert v (set rs)"
  by (induction rs) (auto split: option.splits)

lemma find_insertRow:
  "key v = Some k \<Longrightarrow> \<not> hasKey key k rs \<Longrightarrow>
   find (\<lambda>w. key w = Some k) (insertRow key k v rs) = Some v"
  by (induction rs) (auto simp: hasKey_def split: option.splits)

lemma find_key: "find (\<lambda>w. key w = Some k) rs = Some v \<Longrightarrow> key v = Some k \<and> v \<in> set rs"
  by (induction rs) (auto split: if_splits)

lemma distinct_filter_le1:
  "distinct (map f rs) \<Longrightarrow> length (filter (\<lambda>a. f a = x) rs) \<le> 1"
  by (induction rs) (auto simp: filter_empty_conv image_iff)

text \<open>Deleting the records found by a query, key by key, removes exactly the records
  the query selects when keys are distinct.\<close>

lemma filter_by_key_image:
  assumes "distinct (map key rs)"
  shows "filter (\<lambda>w. key w \<notin> key ` set (filter P rs)) rs = filter (\<lambda>w. \<not> P w) rs"
proof (rule filter_cong[OF refl])
  fix w assume w: "w \<in> set rs"
  have inj: "inj_on key (set rs)" using assms by (simp add: distinct_map)
  show "(key w \<notin> key ` set (filter P rs)) = (\<not> P w)"
  proof
    assume "key w \<notin> key ` set (filter P rs)"
    then show "\<not> P w" using w by auto
  next
    assume np: "\<not> P w"
    show "key w \<notin> key ` set (filter P rs)"
    proof
      assume "key w \<in> key ` set (filter P rs)"
      then obtain x where x: "x \<in> set rs" "P x" "key x = key w" by auto
      with inj w have "x = w" by (auto dest: inj_onD)
      with x np show False by simp
    qed
  qed
qed

lemma deleteAccessRows_keyed:
  "list_all (\<lambda>a. id_ar a \<noteq> None) as \<Longrightarrow>
   deleteAccessRows as st =
     (None, st\<lparr>rows := filter (\<lambda>w. id_ar w \<notin> id_ar ` set as) (rows st)\<rparr>)"
proof (induction as arbitrary: st)
  case Nil
  then show ?case by simp
next
  case (Cons a as)
  then obtain k where k: "id_ar a = Some k" by auto
  have "list_all (\<lambda>a. id_ar a \<noteq> None) as" using Cons.prems by simp
  from Cons.IH[OF this] k show ?case
    by (auto simp: store_delete_def intro!: filter_cong)
qed

lemma addPendingChange_fresh:
  "fst stamp \<notin> id_pc ` set (pendingChanges db) \<Longrightarrow>
   addPendingChange stamp change db =
     Inr (db\<lparr>pendingChanges := insort_key id_pc
            \<lparr>id_pc = fst stamp, timestamp = snd stamp, operation = op_c change,
             entityType = entity_c change, data = data_c change\<rparr> (pendingChanges db)\<rparr>)"
  by (force simp: addPendingChange_def list_ex_iff Let_def)

lemma addPendingChange_taken:
  "fst stamp \<in> id_pc ` set (pendingChanges db) \<Longrightarrow>
   addPendingChange stamp change db = Inl ConstraintError"
  by (force simp: addPendingChange_def list_ex_iff Let_def)

lemma updateEmployee_stores:
  assumes "store_put id_emp setEmployeeId employeeClash emp (employees db) = Inr (k, st)"
  shows "employees (snd (updateEmployee stamp emp db)) = st
       \<and> accessRights (snd (updateEmployee stamp emp db)) = accessRights db
       \<and> rooms (snd (updateEmployee stamp emp db)) = rooms db"
  using assms by (auto simp: updateEmployee_def addPendingChange_def Let_def)

text \<open>Writing back an employee read from the store, with the same badge, cannot
  violate the unique index on the badge.\<close>

lemma store_put_employee:
  assumes wf: "distinct (map employeeId_emp (rows st))"
    and f: "store_get id_emp e st = Some emp"
    and b: "employeeId_emp emp' = employeeId_emp emp" and k: "id_emp emp' = Some e"
  shows "store_put id_emp setEmployeeId employeeClash emp' st =
     Inr (e, \<lparr>rows = insertRow id_emp e emp' (filter (\<lambda>w. id_emp w \<noteq> Some e) (rows st)),
              keyGen = bumpKeyGen e (keyGen st)\<rparr>)"
proof -
  from f have m: "id_emp emp = Some e" "emp \<in> set (rows st)"
    using find_key[of id_emp e "rows st" emp] by (auto simp: store_get_def)
  have "\<not> list_ex (employeeClash emp') (filter (\<lambda>w. id_emp w \<noteq> Some e) (rows st))"
  proof
    assume "list_ex (employeeClash emp') (filter (\<lambda>w. id_emp w \<noteq> Some e) (rows st))"
    then obtain w where w: "w \<in> set (rows st)" "id_emp w \<noteq> Some e"
        "employeeId_emp w = employeeId_emp emp"
      using b by (auto simp: list_ex_iff employeeClash_def)
    from wf have "inj_on employeeId_emp (set (rows st))" by (simp add: distinct_map)
    with w m have "w = emp" by (auto dest: inj_onD)
    with w m show False by simp
  qed
  then show ?thesis using k by (simp add: store_put_def Let_def)
qed

lemma distinct_map_insertRow:
  "distinct (map f (insertRow key k v rs)) \<longleftrightarrow> f v \<notin> f ` set rs \<and> distinct (map f rs)"
  by (induction rs) (auto simp: set_insertRow split: option.splits)

lemma distinct_map_insort_key:
  "distinct (map f (insort_key g x xs)) \<longleftrightarrow> f x \<notin> f ` set xs \<and> distinct (map f xs)"
  by (induction xs) (auto simp: set_insort_key)

lemma keysOk_filter: "keysOk key st \<Longrightarrow> keysOk key (st\<lparr>rows := filter P (rows st)\<rparr>)"
  by (auto simp: keysOk_def list_all_iff distinct_map_filter split: option.splits)

lemma keysOk_store_delete: "keysOk key st \<Longrightarrow> keysOk key (store_delete key k st)"
  by (simp add: store_delete_def keysOk_filter)

lemma keysOk_insert:
  assumes "keysOk key st" and "key v = Some k" and "\<not> hasKey key k (rows st)"
    and "min k maxKey < g" and "keyGen st \<le> g"
  shows "keysOk key \<lparr>rows = insertRow key k v (rows st), keyGen = g\<rparr>"
  using assms
  by (auto simp: keysOk_def list_all_iff set_insertRow distinct_map_insertRow hasKey_def
      list_ex_iff split: option.splits)

lemma bumpKeyGen_above: "min k maxKey < bumpKeyGen k g \<and> g \<le> bumpKeyGen k g"
  by (auto simp: bumpKeyGen_def Let_def min_def)

lemma hasKey_filter: "\<not> hasKey key k (filter (\<lambda>w. key w \<noteq> Some k) rs)"
  by (simp add: hasKey_def list_ex_iff)

text \<open>A store operation that succeeds keeps the keys in order and a unique index
  (given by the indexed value \<open>f\<close>) free of duplicates.\<close>

lemma store_add_keysOk:
  assumes ok: "keysOk key st" and sk: "\<And>k. key (setKey k v) = Some k"
    and add: "store_add key setKey clash v st = Inr (k, st')"
  shows "keysOk key st'"
proof (cases "key v")
  case None
  with add have nk: "\<not> hasKey key (keyGen st) (rows st)"
      and st': "st' = \<lparr>rows = insertRow key (keyGen st) (setKey (keyGen st) v) (rows st),
                       keyGen = keyGen st + 1\<rparr>"
    by (auto simp: store_add_def Let_def split: if_splits)
  show ?thesis unfolding st' by (rule keysOk_insert[OF ok sk nk]) simp_all
next
  case (Some j)
  with add have nk: "\<not> hasKey key j (rows st)"
      and st': "st' = \<lparr>rows = insertRow key j v (rows st), keyGen = bumpKeyGen j (keyGen st)\<rparr>"
    by (auto simp: store_add_def Let_def split: if_splits)
  show ?thesis unfolding st'
    by (rule keysOk_insert[OF ok Some nk]) (simp_all add: bumpKeyGen_above)
qed

lemma store_add_unique:
  assumes u: "distinct (map f (rows st))"
    and cl: "\<And>w. clash v w \<longleftrightarrow> f v = f w" and sf: "\<And>k. f (setKey k v) = f v"
    and add: "store_add key setKey clash v st = Inr (k, st')"
  shows "distinct (map f (rows st'))"
proof -
  from add have nc: "\<not> list_ex (clash v) (rows st)"
    by (auto simp: store_add_def Let_def split: option.splits if_splits)
  from add obtain j v' where "rows st' = insertRow key j v' (rows st)" "f v' = f v"
    by (auto simp: store_add_def Let_def sf split: option.splits if_splits)
  then show ?thesis using u nc cl by (auto simp: distinct_map_insertRow list_ex_iff)
qed

lemma store_put_keysOk:
  assumes ok: "keysOk key st" and sk: "\<And>k. key (setKey k v) = Some k"
    and put: "store_put key setKey clash v st = Inr (k, st')"
  shows "keysOk key st'"
proof (cases "key v")
  case None
  with put have "store_add key setKey clash v st = Inr (k, st')" by (simp add: store_put_def)
  from store_add_keysOk[OF ok sk this] show ?thesis .
next
  case (Some j)
  let ?others = "filter (\<lambda>w. key w \<noteq> Some j) (rows st)"
  from Some put have
      st': "st' = \<lparr>rows = insertRow key j v ?others, keyGen = bumpKeyGen j (keyGen st)\<rparr>"
    by (auto simp: store_put_def Let_def split: if_splits)
  have ok': "keysOk key (st\<lparr>rows := ?others\<rparr>)" by (rule keysOk_filter[OF ok])
  have "keysOk key \<lparr>rows = insertRow key j v (rows (st\<lparr>rows := ?others\<rparr>)),
                    keyGen = bumpKeyGen j (keyGen st)\<rparr>"
    by (rule keysOk_insert[OF ok' Some]) (simp_all add: hasKey_filter bumpKeyGen_above)
  then show ?thesis by (simp add: st')
qed

lemma store_put_unique:
  assumes u: "distinct (map f (rows st))"
    and cl: "\<And>w. clash v w \<longleftrightarrow> f v = f w" and sf: "\<And>k. f (setKey k v) = f v"
    and put: "store_put key setKey clash v st = Inr (k, st')"
  shows "distinct (map f (rows st'))"
proof (cases "key v")
  case None
  with put have "store_add key setKey clash v st = Inr (k, st')" by (simp add: store_put_def)
  from store_add_unique[OF u cl sf this] show ?thesis .
next
  case (Some j)
  let ?others = "filter (\<lambda>w. key w \<noteq> Some j) (rows st)"
  from Some put have nc: "\<not> list_ex (clash v) ?others"
      and st': "rows st' = insertRow key j v ?others"
    by (auto simp: store_put_def Let_def split: if_splits)
  show ?thesis
    using u nc cl by (auto simp: st' distinct_map_insertRow list_ex_iff distinct_map_filter)
qed

lemma deleteAccessRows_keeps:
  "keysOk id_ar st \<Longrightarrow> distinct (map f (rows st)) \<Longrightarrow>
   keysOk id_ar (snd (deleteAccessRows as st))
   \<and> distinct (map f (rows (snd (deleteAccessRows as st))))"
proof (induction as arbitrary: st)
  case Nil
  then show ?case by simp
next
  case (Cons a as)
  show ?case
  proof (cases "id_ar a")
    case None
    then show ?thesis using Cons.prems by simp
  next
    case (Some k)
    have "keysOk id_ar (store_delete id_ar k st)"
      by (rule keysOk_store_delete[OF Cons.prems(1)])
    moreover have "distinct (map f (rows (store_delete id_ar k st)))"
      using Cons.prems(2) by (simp add: store_delete_def distinct_map_filter)
    ultimately show ?thesis using Cons.IH Some by simp
  qed
qed

lemma addPendingChange_keeps:
  assumes wf: "wellFormed db" and add: "addPendingChange stamp change db = Inr db'"
  shows "wellFormed db'"
proof -
  let ?p = "\<lparr>id_pc = fst stamp, timestamp = snd stamp, operation = op_c change,
             entityType = entity_c change, data = data_c change\<rparr>"
  from add have fresh: "fst stamp \<notin> id_pc ` set (pendingChanges db)"
    and db': "db' = db\<lparr>pendingChanges := insort_key id_pc ?p (pendingChanges db)\<rparr>"
    by (auto simp: addPendingChange_def Let_def list_ex_iff split: if_splits)
  have "distinct (map id_pc (insort_key id_pc ?p (pendingChanges db)))"
    using wf fresh by (simp add: distinct_map_insort_key wellFormed_def)
  then show ?thesis using wf by (simp add: db' wellFormed_def)
qed

lemma wellFormed_rooms: 
  "wellFormed db \<Longrightarrow> keysOk id_room st \<Longrightarrow> wellFormed (db\<lparr>rooms := st\<rparr>)"
  by (simp add: wellFormed_def)

lemma wellFormed_employees:
  "wellFormed db \<Longrightarrow> keysOk id_emp st \<Longrightarrow> distinct (map employeeId_emp (rows st)) \<Longrightarrow>
   wellFormed (db\<lparr>employees := st\<rparr>)"
  by (simp add: wellFormed_def)

lemma wellFormed_accessRights:
  "wellFormed db \<Longrightarrow> keysOk id_ar st \<Longrightarrow>
   distinct (map (\<lambda>a. (employeeId a, roomId a)) (rows st)) \<Longrightarrow>
   wellFormed (db\<lparr>accessRights := st\<rparr>)"
  by (simp add: wellFormed_def)


text \<open>The example databases are well-formed.\<close>

lemma examples_wellFormed:
  "wellFormed emptyDatabase \<and> wellFormed dbRoom \<and> wellFormed dbStaff
   \<and> wellFormed dbGranted \<and> wellFormed dbZero \<and> wellFormed dbStale
   \<and> wellFormed dbOutbox"
  by code_simp

section \<open>Mutations keep the database well-formed\<close>

lemma employees_put_keeps_wellFormed:
  assumes wf: "wellFormed db"
    and put: "store_put id_emp setEmployeeId employeeClash emp (employees db) = Inr (k, st)"
  shows "wellFormed (db\<lparr>employees := st\<rparr>)"
proof -
  have sk: "\<And>k. id_emp (setEmployeeId k emp) = Some k" by (simp add: setEmployeeId_def)
  have sf: "\<And>k. employeeId_emp (setEmployeeId k emp) = employeeId_emp emp"
    by (simp add: setEmployeeId_def)
  have cl: "\<And>w. employeeClash emp w \<longleftrightarrow> employeeId_emp emp = employeeId_emp w"
    by (simp add: employeeClash_def)
  have ok: "keysOk id_emp (employees db)" using wf by (simp add: wellFormed_def)
  have u: "distinct (map employeeId_emp (rows (employees db)))"
    using wf by (simp add: wellFormed_def)
  have "keysOk id_emp st" by (rule store_put_keysOk[OF ok sk put])
  moreover have "distinct (map employeeId_emp (rows st))"
    by (rule store_put_unique[OF u cl sf put])
  ultimately show ?thesis using wf by (simp add: wellFormed_employees)
qed

lemma updateEmployee_keeps_wellFormed:
  assumes wf: "wellFormed db"
  shows "wellFormed (snd (updateEmployee stamp emp db))"
proof (cases "store_put id_emp setEmployeeId employeeClash emp (employees db)")
  case (Inl e)
  then show ?thesis using wf by (simp add: updateEmployee_def)
next
  case (Inr r)
  obtain k st where put:
      "store_put id_emp setEmployeeId employeeClash emp (employees db) = Inr (k, st)"
    using Inr by (cases r) simp
  from employees_put_keeps_wellFormed[OF wf put]
  show ?thesis using put
    by (auto simp: updateEmployee_def Let_def split: sum.splits
        dest: addPendingChange_keeps[rotated])
qed

lemma accessRights_deleted_keeps_wellFormed:
  assumes wf: "wellFormed db"
  shows "wellFormed (db\<lparr>accessRights := snd (deleteAccessRows as (accessRights db))\<rparr>)"
proof -
  have "keysOk id_ar (accessRights db)"
    and "distinct (map (\<lambda>a. (employeeId a, roomId a)) (rows (accessRights db)))"
    using wf by (simp_all add: wellFormed_def)
  from deleteAccessRows_keeps[OF this, of as] show ?thesis
    using wf by (simp add: wellFormed_accessRights)
qed

lemma grantAccess_keeps_wellFormed:
  assumes wf: "wellFormed db"
  shows "wellFormed (snd (grantAccess s1 s2 eid rid db))"
proof (cases "getAccessRights (Some rid) (Some eid) db = []")
  case False
  then show ?thesis using wf by (simp add: grantAccess_def)
next
  case none: True
  let ?v = "\<lparr>id_ar = None, employeeId = eid, roomId = rid\<rparr>"
  show ?thesis
  proof (cases "store_add id_ar setAccessId accessClash ?v (accessRights db)")
    case (Inl e)
    then show ?thesis using wf none by (simp add: grantAccess_def)
  next
    case (Inr r)
    obtain k st where add:
        "store_add id_ar setAccessId accessClash ?v (accessRights db) = Inr (k, st)"
      using Inr by (cases r) simp
    have sk: "\<And>k. id_ar (setAccessId k ?v) = Some k" by (simp add: setAccessId_def)
    have sf: "\<And>k. (\<lambda>a. (employeeId a, roomId a)) (setAccessId k ?v)
                 = (\<lambda>a. (employeeId a, roomId a)) ?v"
      by (simp add: setAccessId_def)
    have cl: "\<And>w. accessClash ?v w \<longleftrightarrow>
        (\<lambda>a. (employeeId a, roomId a)) ?v = (\<lambda>a. (employeeId a, roomId a)) w"
      by (auto simp: accessClash_def)
    have ok: "keysOk id_ar (accessRights db)" using wf by (simp add: wellFormed_def)
    have u: "distinct (map (\<lambda>a. (employeeId a, roomId a)) (rows (accessRights db)))"
      using wf by (simp add: wellFormed_def)
    have "keysOk id_ar st" by (rule store_add_keysOk[OF ok sk add])
    moreover have "distinct (map (\<lambda>a. (employeeId a, roomId a)) (rows st))"
      by (rule store_add_unique[OF u cl sf add])
    ultimately have wf1: "wellFormed (db\<lparr>accessRights := st\<rparr>)"
      using wf by (simp add: wellFormed_accessRights)
    let ?db2 = "case getEmployeeById eid (db\<lparr>accessRights := st\<rparr>) of
                       None \<Rightarrow> db\<lparr>accessRights := st\<rparr>
                     | Some employee \<Rightarrow>
                         if rid \<in> set (accessRooms employee) then db\<lparr>accessRights := st\<rparr>
                         else snd (updateEmployee s1
                                     (employee\<lparr>accessRooms := accessRooms employee @ [rid]\<rparr>)
                                     (db\<lparr>accessRights := st\<rparr>))"
    have wf2: "wellFormed ?db2"
      using wf1 by (auto split: option.splits intro: updateEmployee_keeps_wellFormed)
    from wf2 show ?thesis using none add
      by (auto simp: grantAccess_def Let_def split: sum.splits
          dest: addPendingChange_keeps[rotated])
  qed
qed

lemma revokeAccess_keeps_wellFormed:
  assumes wf: "wellFormed db"
  shows "wellFormed (snd (revokeAccess s1 s2 eid rid db))"
proof (cases "getAccessRights (Some rid) (Some eid) db = []")
  case True
  then show ?thesis using wf by (simp add: revokeAccess_def)
next
  case False
  let ?found = "getAccessRights (Some rid) (Some eid) db"
  let ?db1 = "db\<lparr>accessRights := snd (deleteAccessRows ?found (accessRights db))\<rparr>"
  have wf1: "wellFormed ?db1" by (rule accessRights_deleted_keeps_wellFormed[OF wf])
  let ?db2 = "case getEmployeeById eid ?db1 of
                None \<Rightarrow> ?db1
              | Some employee \<Rightarrow>
                  snd (updateEmployee s1
                         (employee\<lparr>accessRooms := filter (\<lambda>i. i \<noteq> rid) (accessRooms employee)\<rparr>)
                         ?db1)"
  have wf2: "wellFormed ?db2"
    using wf1 by (auto split: option.splits intro: updateEmployee_keeps_wellFormed)
  from wf2 wf1 show ?thesis using False
    by (auto simp: revokeAccess_def Let_def split: sum.splits option.splits
        dest: addPendingChange_keeps[rotated])
qed

lemma deleteRoom_keeps_wellFormed:
  assumes wf: "wellFormed db"
  shows "wellFormed (snd (deleteRoom stamp rid db))"
proof -
  let ?db1 = "db\<lparr>rooms := store_delete id_room rid (rooms db)\<rparr>"
  have wf1: "wellFormed ?db1"
    using wf by (simp add: wellFormed_def keysOk_store_delete)
  let ?found = "getAccessRights (Some rid) None ?db1"
  let ?db2 = "?db1\<lparr>accessRights := snd (deleteAccessRows ?found (accessRights ?db1))\<rparr>"
  have wf2: "wellFormed ?db2" by (rule accessRights_deleted_keeps_wellFormed[OF wf1])
  from wf2 show ?thesis
    by (auto simp: deleteRoom_def Let_def split: sum.splits option.splits
        dest: addPendingChange_keeps[rotated])
qed

lemma createRoom_keeps_wellFormed:
  assumes wf: "wellFormed db"
  shows "wellFormed (snd (createRoom stamp room db))"
proof (cases "store_add id_room setRoomId roomClash room (rooms db)")
  case (Inl e)
  then show ?thesis using wf by (simp add: createRoom_def)
next
  case (Inr r)
  obtain k st where add: "store_add id_room setRoomId roomClash room (rooms db) = Inr (k, st)"
    using Inr by (cases r) simp
  have sk: "\<And>k. id_room (setRoomId k room) = Some k" by (simp add: setRoomId_def)
  have ok: "keysOk id_room (rooms db)" using wf by (simp add: wellFormed_def)
  have "keysOk id_room st" by (rule store_add_keysOk[OF ok sk add])
  then have wf1: "wellFormed (db\<lparr>rooms := st\<rparr>)" using wf by (simp add: wellFormed_rooms)
  from wf1 show ?thesis using add
    by (auto simp: createRoom_def Let_def split: sum.splits
        dest: addPendingChange_keeps[rotated])
qed

lemma createEmployee_keeps_wellFormed:
  assumes wf: "wellFormed db"
  shows "wellFormed (snd (createEmployee stamp emp db))"
proof (cases "store_add id_emp setEmployeeId employeeClash emp (employees db)")
  case (Inl e)
  then show ?thesis using wf by (simp add: createEmployee_def)
next
  case (Inr r)
  obtain k st where add:
      "store_add id_emp setEmployeeId employeeClash emp (employees db) = Inr (k, st)"
    using Inr by (cases r) simp
  have sk: "\<And>k. id_emp (setEmployeeId k emp) = Some k" by (simp add: setEmployeeId_def)
  have sf: "\<And>k. employeeId_emp (setEmployeeId k emp) = employeeId_emp emp"
    by (simp add: setEmployeeId_def)
  have cl: "\<And>w. employeeClash emp w \<longleftrightarrow> employeeId_emp emp = employeeId_emp w"
    by (simp add: employeeClash_def)
  have ok: "keysOk id_emp (employees db)" using wf by (simp add: wellFormed_def)
  have u: "distinct (map employeeId_emp (rows (employees db)))"
    using wf by (simp add: wellFormed_def)
  have "keysOk id_emp st" by (rule store_add_keysOk[OF ok sk add])
  moreover have "distinct (map employeeId_emp (rows st))"
    by (rule store_add_unique[OF u cl sf add])
  ultimately have wf1: "wellFormed (db\<lparr>employees := st\<rparr>)"
    using wf by (simp add: wellFormed_employees)
  from wf1 show ?thesis using add
    by (auto simp: createEmployee_def Let_def split: sum.splits
        dest: addPendingChange_keeps[rotated])
qed

section \<open>The access invariant and the deletion of a room\<close>

text \<open>In a well-formed database \<open>grantAccess\<close> keeps the invariant
  \<open>accessRoomsAgree\<close>, and \<open>revokeAccess\<close> keeps it for ids different from 0: both
  write the employee's \<open>accessRooms\<close> together with the AccessRight rows.\<close>

lemma accessRoomsAgree_iff:
  "accessRoomsAgree db \<longleftrightarrow>
     (\<forall>e \<in> set (rows (employees db)).
        set (accessRooms e) =
          roomId ` {a \<in> set (rows (accessRights db)). Some (employeeId a) = id_emp e})"
  by (simp add: accessRoomsAgree_def list_all_iff)

lemma Collect_insert_if:
  "{a \<in> insert x S. P a} = (if P x then insert x {a \<in> S. P a} else {a \<in> S. P a})"
  by auto

lemma find_None_key: "find (\<lambda>w. key w = Some k) rs = None \<Longrightarrow> w \<in> set rs \<Longrightarrow> key w \<noteq> Some k"
  by (auto simp: find_None_iff)

lemma keysOk_unique:
  "keysOk key st \<Longrightarrow> v \<in> set (rows st) \<Longrightarrow> w \<in> set (rows st) \<Longrightarrow> key v = key w \<Longrightarrow> v = w"
  by (auto simp: keysOk_def distinct_map dest: inj_onD)

text \<open>The stores after a grantAccess that finds no existing row.\<close>

lemma grantAccess_new_row:
  assumes wf: "wellFormed db"
    and none: "getAccessRights (Some rid) (Some eid) db = []"
    and gen: "keyGen (accessRights db) \<le> maxKey"
  shows "rows (accessRights (snd (grantAccess s1 s2 eid rid db))) =
           insertRow id_ar (keyGen (accessRights db))
             \<lparr>id_ar = Some (keyGen (accessRights db)), employeeId = eid, roomId = rid\<rparr>
             (rows (accessRights db))"
    and "rows (employees (snd (grantAccess s1 s2 eid rid db))) =
           (case getEmployeeById eid db of
              None \<Rightarrow> rows (employees db)
            | Some emp \<Rightarrow>
                if rid \<in> set (accessRooms emp) then rows (employees db)
                else insertRow id_emp eid (emp\<lparr>accessRooms := accessRooms emp @ [rid]\<rparr>)
                       (filter (\<lambda>w. id_emp w \<noteq> Some eid) (rows (employees db))))"
proof -
  let ?k = "keyGen (accessRights db)"
  let ?row = "\<lparr>id_ar = Some ?k, employeeId = eid, roomId = rid\<rparr>"
  let ?st = "\<lparr>rows = insertRow id_ar ?k ?row (rows (accessRights db)), keyGen = ?k + 1\<rparr>"
  let ?db1 = "snd (grantAccess s1 s2 eid rid db)"
  have nokey: "\<not> hasKey id_ar ?k (rows (accessRights db))"
    using wf gen by (simp add: wellFormed_def keysOk_no_keyGen)
  have sub: "set (getAccessRights (Some rid) (Some eid) db) \<supseteq>
      {a \<in> set (rows (accessRights db)). employeeId a = eid \<and> roomId a = rid}"
    by (auto simp: getAccessRights_def)
  have noclash: "\<not> list_ex (accessClash \<lparr>id_ar = None, employeeId = eid, roomId = rid\<rparr>)
      (rows (accessRights db))"
    using sub none by (auto simp: list_ex_iff accessClash_def)
  have add: "store_add id_ar setAccessId accessClash
      \<lparr>id_ar = None, employeeId = eid, roomId = rid\<rparr> (accessRights db) = Inr (?k, ?st)"
    using nokey noclash gen by (simp add: store_add_def setAccessId_def Let_def)
  let ?d1 = "db\<lparr>accessRights := ?st\<rparr>"
  have e1: "getEmployeeById eid ?d1 = getEmployeeById eid db"
    by (simp add: getEmployeeById_def)
  show "rows (accessRights ?db1) = insertRow id_ar ?k ?row (rows (accessRights db))"
  proof (cases "getEmployeeById eid db")
    case None
    then show ?thesis using none add e1
      by (auto simp: grantAccess_def Let_def addPendingChange_def)
  next
    case (Some emp)
    let ?emp' = "emp\<lparr>accessRooms := accessRooms emp @ [rid]\<rparr>"
    have key: "id_emp emp = Some eid"
      using Some find_key[of id_emp eid "rows (employees db)" emp]
      by (simp add: getEmployeeById_def store_get_def)
    have put: "store_put id_emp setEmployeeId employeeClash ?emp' (employees ?d1)
        = Inr (eid, \<lparr>rows = insertRow id_emp eid ?emp'
                        (filter (\<lambda>w. id_emp w \<noteq> Some eid) (rows (employees db))),
              keyGen = bumpKeyGen eid (keyGen (employees db))\<rparr>)"
      using store_put_employee[of "employees db" eid emp ?emp'] wf Some key
      by (simp add: wellFormed_def getEmployeeById_def)
    note upd = updateEmployee_stores[OF put, of s1]
    show ?thesis using none add e1 Some upd
      by (auto simp: grantAccess_def Let_def addPendingChange_def)
  qed
  show "rows (employees ?db1) =
           (case getEmployeeById eid db of
              None \<Rightarrow> rows (employees db)
            | Some emp \<Rightarrow>
                if rid \<in> set (accessRooms emp) then rows (employees db)
                else insertRow id_emp eid (emp\<lparr>accessRooms := accessRooms emp @ [rid]\<rparr>)
                       (filter (\<lambda>w. id_emp w \<noteq> Some eid) (rows (employees db))))"
  proof (cases "getEmployeeById eid db")
    case None
    then show ?thesis using none add e1
      by (auto simp: grantAccess_def Let_def addPendingChange_def)
  next
    case (Some emp)
    let ?emp' = "emp\<lparr>accessRooms := accessRooms emp @ [rid]\<rparr>"
    have key: "id_emp emp = Some eid"
      using Some find_key[of id_emp eid "rows (employees db)" emp]
      by (simp add: getEmployeeById_def store_get_def)
    have put: "store_put id_emp setEmployeeId employeeClash ?emp' (employees ?d1)
        = Inr (eid, \<lparr>rows = insertRow id_emp eid ?emp'
                        (filter (\<lambda>w. id_emp w \<noteq> Some eid) (rows (employees db))),
              keyGen = bumpKeyGen eid (keyGen (employees db))\<rparr>)"
      using store_put_employee[of "employees db" eid emp ?emp'] wf Some key
      by (simp add: wellFormed_def getEmployeeById_def)
    note upd = updateEmployee_stores[OF put, of s1]
    show ?thesis using none add e1 Some upd
      by (auto simp: grantAccess_def Let_def addPendingChange_def)
  qed
qed

lemma grantAccess_keeps_agreement:
  assumes wf: "wellFormed db" and inv: "accessRoomsAgree db"
  shows "accessRoomsAgree (snd (grantAccess s1 s2 eid rid db))"
proof (cases "getAccessRights (Some rid) (Some eid) db = []
    \<and> keyGen (accessRights db) \<le> maxKey")
  case False
  then have "snd (grantAccess s1 s2 eid rid db) = db"
    by (auto simp: grantAccess_def store_add_def Let_def)
  then show ?thesis using inv by simp
next
  case both: True
  then have none: "getAccessRights (Some rid) (Some eid) db = []"
    and gen: "keyGen (accessRights db) \<le> maxKey" by simp_all
  let ?db1 = "snd (grantAccess s1 s2 eid rid db)"
  let ?row = "\<lparr>id_ar = Some (keyGen (accessRights db)), employeeId = eid, roomId = rid\<rparr>"
  note st = grantAccess_new_row[OF wf none gen, of s1 s2]
  have acc: "set (rows (accessRights ?db1)) = insert ?row (set (rows (accessRights db)))"
    by (simp add: st(1) set_insertRow)
  have old: "\<And>e. e \<in> set (rows (employees db)) \<Longrightarrow>
        set (accessRooms e) =
          roomId ` {a \<in> set (rows (accessRights db)). Some (employeeId a) = id_emp e}"
    using inv by (simp add: accessRoomsAgree_iff)
  have ek: "keysOk id_emp (employees db)" using wf by (simp add: wellFormed_def)
  have new: "\<And>k. roomId ` {a \<in> set (rows (accessRights ?db1)). Some (employeeId a) = k} =
      (if Some eid = k
       then insert rid (roomId ` {a \<in> set (rows (accessRights db)). Some (employeeId a) = k})
       else roomId ` {a \<in> set (rows (accessRights db)). Some (employeeId a) = k})"
  proof -
    fix k
    define row where "row = ?row"
    have r: "employeeId row = eid" "roomId row = rid" by (simp_all add: row_def)
    have "set (rows (accessRights ?db1)) = insert row (set (rows (accessRights db)))"
      using acc by (simp add: row_def)
    then show "roomId ` {a \<in> set (rows (accessRights ?db1)). Some (employeeId a) = k} =
      (if Some eid = k
       then insert rid (roomId ` {a \<in> set (rows (accessRights db)). Some (employeeId a) = k})
       else roomId ` {a \<in> set (rows (accessRights db)). Some (employeeId a) = k})"
      using r by auto
  qed
  show ?thesis
  proof (cases "getEmployeeById eid db")
    case None
    then have emps: "rows (employees ?db1) = rows (employees db)" by (simp add: st(2))
    have ne: "\<And>e. e \<in> set (rows (employees db)) \<Longrightarrow> id_emp e \<noteq> Some eid"
      using None find_None_key[of id_emp eid "rows (employees db)"]
      by (simp add: getEmployeeById_def store_get_def)
    show ?thesis unfolding accessRoomsAgree_iff emps new
      using old ne by (auto simp: eq_commute[of "Some eid"])
  next
    case (Some emp)
    have m: "id_emp emp = Some eid" "emp \<in> set (rows (employees db))"
      using Some find_key[of id_emp eid "rows (employees db)" emp]
      by (auto simp: getEmployeeById_def store_get_def)
    have uniq: "\<And>e. e \<in> set (rows (employees db)) \<Longrightarrow> id_emp e = Some eid \<Longrightarrow> e = emp"
      using keysOk_unique[OF ek _ m(2)] m(1) by simp
    show ?thesis
    proof (cases "rid \<in> set (accessRooms emp)")
      case True
      then have emps: "rows (employees ?db1) = rows (employees db)"
        using Some by (simp add: st(2))
      show ?thesis unfolding accessRoomsAgree_iff emps new
      proof
        fix e assume e: "e \<in> set (rows (employees db))"
        show "set (accessRooms e) =
          (if Some eid = id_emp e
           then insert rid (roomId ` {a \<in> set (rows (accessRights db)).
                                      Some (employeeId a) = id_emp e})
           else roomId ` {a \<in> set (rows (accessRights db)). Some (employeeId a) = id_emp e})"
        proof (cases "id_emp e = Some eid")
          case k: True
          with uniq[OF e] have "e = emp" by simp
          with True old[OF e] have "rid \<in> roomId ` {a \<in> set (rows (accessRights db)).
              Some (employeeId a) = id_emp e}" by simp
          then show ?thesis using k old[OF e] by (simp add: insert_absorb)
        next
          case False
          then show ?thesis using old[OF e] by simp
        qed
      qed
    next
      case False
      let ?emp' = "emp\<lparr>accessRooms := accessRooms emp @ [rid]\<rparr>"
      have emps: "set (rows (employees ?db1)) =
          insert ?emp' {w \<in> set (rows (employees db)). id_emp w \<noteq> Some eid}"
        using Some False by (simp add: st(2) set_insertRow)
      have a: "set (accessRooms ?emp') =
          insert rid (roomId ` {a \<in> set (rows (accessRights db)).
                                 Some (employeeId a) = id_emp ?emp'})"
        using old[OF m(2)] by simp
      show ?thesis unfolding accessRoomsAgree_iff emps new
        using a m(1) old by (auto simp: eq_commute[of "Some eid"])
    qed
  qed
qed


text \<open>The stores after a revokeAccess of nonzero ids that finds a row.\<close>

lemma revokeAccess_found:
  assumes wf: "wellFormed db" and e0: "eid \<noteq> 0" and r0: "rid \<noteq> 0"
    and some: "getAccessRights (Some rid) (Some eid) db \<noteq> []"
  shows "rows (accessRights (snd (revokeAccess s1 s2 eid rid db))) =
           filter (\<lambda>a. \<not> (employeeId a = eid \<and> roomId a = rid)) (rows (accessRights db))"
    and "rows (employees (snd (revokeAccess s1 s2 eid rid db))) =
           (case getEmployeeById eid db of
              None \<Rightarrow> rows (employees db)
            | Some emp \<Rightarrow>
                insertRow id_emp eid
                  (emp\<lparr>accessRooms := filter (\<lambda>i. i \<noteq> rid) (accessRooms emp)\<rparr>)
                  (filter (\<lambda>w. id_emp w \<noteq> Some eid) (rows (employees db))))"
proof -
  let ?P = "\<lambda>a. employeeId a = eid \<and> roomId a = rid"
  let ?found = "getAccessRights (Some rid) (Some eid) db"
  let ?kept = "filter (\<lambda>a. \<not> ?P a) (rows (accessRights db))"
  let ?db' = "snd (revokeAccess s1 s2 eid rid db)"
  have q: "?found = filter ?P (rows (accessRights db))"
    using e0 r0 by (simp add: getAccessRights_def truthy_def)
  have ak: "keysOk id_ar (accessRights db)" using wf by (simp add: wellFormed_def)
  have allkeys: "list_all (\<lambda>a. id_ar a \<noteq> None) ?found"
    unfolding q using keysOk_keyed[OF ak] by (auto simp: list_all_iff)
  have del: "deleteAccessRows ?found (accessRights db) = (None, (accessRights db)\<lparr>rows := ?kept\<rparr>)"
  proof -
    have d: "distinct (map id_ar (rows (accessRights db)))" using ak by (simp add: keysOk_def)
    have "deleteAccessRows ?found (accessRights db) =
        (None, (accessRights db)\<lparr>rows :=
           filter (\<lambda>w. id_ar w \<notin> id_ar ` set ?found) (rows (accessRights db))\<rparr>)"
      by (rule deleteAccessRows_keyed[OF allkeys])
    also have "filter (\<lambda>w. id_ar w \<notin> id_ar ` set ?found) (rows (accessRights db)) = ?kept"
      unfolding q using filter_by_key_image[OF d] by simp
    finally show ?thesis by simp
  qed
  let ?d1 = "db\<lparr>accessRights := (accessRights db)\<lparr>rows := ?kept\<rparr>\<rparr>"
  have e1: "getEmployeeById eid ?d1 = getEmployeeById eid db"
    by (simp add: getEmployeeById_def)
  have both: "rows (accessRights ?db') = ?kept \<and>
      rows (employees ?db') =
           (case getEmployeeById eid db of
              None \<Rightarrow> rows (employees db)
            | Some emp \<Rightarrow>
                insertRow id_emp eid
                  (emp\<lparr>accessRooms := filter (\<lambda>i. i \<noteq> rid) (accessRooms emp)\<rparr>)
                  (filter (\<lambda>w. id_emp w \<noteq> Some eid) (rows (employees db))))"
  proof (cases "getEmployeeById eid db")
    case None
    then show ?thesis using some e1
      by (auto simp: revokeAccess_def Let_def del addPendingChange_def)
  next
    case (Some emp)
    let ?emp' = "emp\<lparr>accessRooms := filter (\<lambda>i. i \<noteq> rid) (accessRooms emp)\<rparr>"
    have key: "id_emp emp = Some eid"
      using Some find_key[of id_emp eid "rows (employees db)" emp]
      by (simp add: getEmployeeById_def store_get_def)
    have put: "store_put id_emp setEmployeeId employeeClash ?emp' (employees ?d1)
        = Inr (eid, \<lparr>rows = insertRow id_emp eid ?emp'
                        (filter (\<lambda>w. id_emp w \<noteq> Some eid) (rows (employees db))),
              keyGen = bumpKeyGen eid (keyGen (employees db))\<rparr>)"
      using store_put_employee[of "employees db" eid emp ?emp'] wf Some key
      by (simp add: wellFormed_def getEmployeeById_def)
    note upd = updateEmployee_stores[OF put, of s1]
    show ?thesis using some e1 Some upd
      by (auto simp: revokeAccess_def Let_def del addPendingChange_def)
  qed
  from both show "rows (accessRights ?db') = ?kept" by simp
  from both show "rows (employees ?db') =
           (case getEmployeeById eid db of
              None \<Rightarrow> rows (employees db)
            | Some emp \<Rightarrow>
                insertRow id_emp eid
                  (emp\<lparr>accessRooms := filter (\<lambda>i. i \<noteq> rid) (accessRooms emp)\<rparr>)
                  (filter (\<lambda>w. id_emp w \<noteq> Some eid) (rows (employees db))))" by simp
qed

lemma revokeAccess_keeps_agreement:
  assumes wf: "wellFormed db" and inv: "accessRoomsAgree db"
    and e0: "eid \<noteq> 0" and r0: "rid \<noteq> 0"
  shows "accessRoomsAgree (snd (revokeAccess s1 s2 eid rid db))"
proof (cases "getAccessRights (Some rid) (Some eid) db = []")
  case True
  then show ?thesis using inv by (simp add: revokeAccess_def)
next
  case False
  let ?db' = "snd (revokeAccess s1 s2 eid rid db)"
  note st = revokeAccess_found[OF wf e0 r0 False, of s1 s2]
  have old: "\<And>e. e \<in> set (rows (employees db)) \<Longrightarrow>
        set (accessRooms e) =
          roomId ` {a \<in> set (rows (accessRights db)). Some (employeeId a) = id_emp e}"
    using inv by (simp add: accessRoomsAgree_iff)
  have new: "\<And>k. roomId ` {a \<in> set (rows (accessRights ?db')). Some (employeeId a) = k} =
      (if Some eid = k
       then roomId ` {a \<in> set (rows (accessRights db)). Some (employeeId a) = k} - {rid}
       else roomId ` {a \<in> set (rows (accessRights db)). Some (employeeId a) = k})"
    unfolding st(1) by auto
  show ?thesis
  proof (cases "getEmployeeById eid db")
    case None
    then have emps: "rows (employees ?db') = rows (employees db)" by (simp add: st(2))
    have ne: "\<And>e. e \<in> set (rows (employees db)) \<Longrightarrow> id_emp e \<noteq> Some eid"
      using None find_None_key[of id_emp eid "rows (employees db)"]
      by (simp add: getEmployeeById_def store_get_def)
    show ?thesis unfolding accessRoomsAgree_iff emps new
      using old ne by (auto simp: eq_commute[of "Some eid"])
  next
    case (Some emp)
    have m: "id_emp emp = Some eid" "emp \<in> set (rows (employees db))"
      using Some find_key[of id_emp eid "rows (employees db)" emp]
      by (auto simp: getEmployeeById_def store_get_def)
    let ?emp' = "emp\<lparr>accessRooms := filter (\<lambda>i. i \<noteq> rid) (accessRooms emp)\<rparr>"
    have emps: "set (rows (employees ?db')) =
        insert ?emp' {w \<in> set (rows (employees db)). id_emp w \<noteq> Some eid}"
      using Some by (simp add: st(2) set_insertRow)
    have a: "set (accessRooms ?emp') =
        roomId ` {a \<in> set (rows (accessRights db)). Some (employeeId a) = id_emp ?emp'} - {rid}"
      using old[OF m(2)] by auto
    show ?thesis unfolding accessRoomsAgree_iff emps new
      using a m(1) old by (auto simp: eq_commute[of "Some eid"])
  qed
qed



text \<open>
  C1. The invariant \<open>accessRoomsAgree\<close> (for every employee, \<open>accessRooms\<close> is the set of
  \<open>roomId\<close>s of that employee's AccessRight rows) is claimed to hold after every
  completed grant, revoke, reconcile or delete. \<open>deleteRoom\<close> breaks it: in the
  database reached by creating room 101, creating employee EMP001 and granting the
  access, the invariant holds; \<open>deleteRoom(1)\<close> returns \<open>true\<close>, removes the only
  AccessRight row and leaves \<open>accessRooms = [1]\<close> on the employee, so the invariant
  no longer holds. (\<open>grantAccess\<close> and \<open>revokeAccess\<close> do maintain it, see
  \<open>grantAccess_keeps_agreement\<close> and \<open>revokeAccess_keeps_agreement\<close> above.)
\<close>

theorem deleteRoom_leaves_stale_accessRooms:
  "accessRoomsAgree dbGranted
   \<and> fst (deleteRoom (''c5'', 1004) 1 dbGranted) = True
   \<and> rows (accessRights (snd (deleteRoom (''c5'', 1004) 1 dbGranted))) = []
   \<and> map accessRooms (rows (employees (snd (deleteRoom (''c5'', 1004) 1 dbGranted)))) = [[1]]
   \<and> \<not> accessRoomsAgree (snd (deleteRoom (''c5'', 1004) 1 dbGranted))"
  by code_simp

text \<open>
  C2, as claimed: \<open>deleteRoom(id)\<close> fails with NotFoundError when no Room has the id,
  and otherwise does all its removals atomically. Neither holds. For the id 7, which
  no room of the database has, \<open>deleteRoom\<close> returns \<open>true\<close> and records a pending
  change \<open>delete room {id: 7, room: undefined}\<close>. And when the last step, the \<open>add\<close>
  of the pending change, fails (here because its id \<open>''c1''\<close> is taken), \<open>deleteRoom(1)\<close>
  returns \<open>false\<close> although room 1 and its AccessRight row are already removed.
\<close>

theorem deleteRoom_no_error_not_atomic:
  "getRoomById 7 dbGranted = None
   \<and> fst (deleteRoom (''c5'', 1004) 7 dbGranted) = True
   \<and> length (pendingChanges dbGranted) = 4
   \<and> length (pendingChanges (snd (deleteRoom (''c5'', 1004) 7 dbGranted))) = 5
   \<and> map (\<lambda>p. (operation p, entityType p, data p))
        (filter (\<lambda>p. id_pc p = ''c5'')
           (pendingChanges (snd (deleteRoom (''c5'', 1004) 7 dbGranted))))
      = [(Delete, RoomEntity, DeletedRoom 7 None)]
   \<and> getRoomById 1 dbGranted \<noteq> None
   \<and> map (\<lambda>a. (employeeId a, roomId a)) (rows (accessRights dbGranted)) = [(1, 1)]
   \<and> fst (deleteRoom (''c1'', 1004) 1 dbGranted) = False
   \<and> getRoomById 1 (snd (deleteRoom (''c1'', 1004) 1 dbGranted)) = None
   \<and> rows (accessRights (snd (deleteRoom (''c1'', 1004) 1 dbGranted))) = []
   \<and> pendingChanges (snd (deleteRoom (''c1'', 1004) 1 dbGranted)) = pendingChanges dbGranted"
  by code_simp

text \<open>
  C2, amended. \<open>deleteRoom(id)\<close> does not fail when no Room has the id: with or
  without such a Room it removes the Room with the id (the other rooms stay) and every
  AccessRight row whose \<open>roomId\<close> equals the id, and then adds one pending change
  \<open>delete room {id, room}\<close>, \<open>room\<close> being the Room read before the deletion. It
  returns \<open>true\<close> exactly when the pending change could be added. The steps are not
  atomic: when the pending change cannot be added, the result is \<open>false\<close> and the
  Room and the rows are removed all the same. (The AccessRight store is taken to
  have distinct keys. Nothing is said here about \<open>accessRooms\<close>.)
\<close>

theorem deleteRoom_effect:
  assumes keys: "keysOk id_ar (accessRights db)"
  shows "fst (deleteRoom stamp rid db) = (fst stamp \<notin> id_pc ` set (pendingChanges db))
    \<and> getRoomById rid (snd (deleteRoom stamp rid db)) = None
    \<and> rows (rooms (snd (deleteRoom stamp rid db))) =
        filter (\<lambda>r. id_room r \<noteq> Some rid) (rows (rooms db))
    \<and> filter (\<lambda>a. roomId a = rid) (rows (accessRights (snd (deleteRoom stamp rid db)))) = []
    \<and> pendingChanges (snd (deleteRoom stamp rid db)) =
        (if fst stamp \<notin> id_pc ` set (pendingChanges db)
         then insort_key id_pc
                \<lparr>id_pc = fst stamp, timestamp = snd stamp, operation = Delete,
                 entityType = RoomEntity, data = DeletedRoom rid (getRoomById rid db)\<rparr>
                (pendingChanges db)
         else pendingChanges db)"
proof -
  let ?db1 = "db\<lparr>rooms := store_delete id_room rid (rooms db)\<rparr>"
  let ?found = "getAccessRights (Some rid) None ?db1"
  let ?kept = "filter (\<lambda>a. \<not> (rid = 0 \<or> roomId a = rid)) (rows (accessRights db))"
  let ?p = "\<lparr>id_pc = fst stamp, timestamp = snd stamp, operation = Delete,
             entityType = RoomEntity, data = DeletedRoom rid (getRoomById rid db)\<rparr>"
  have found: "?found = filter (\<lambda>a. rid = 0 \<or> roomId a = rid) (rows (accessRights db))"
    by (auto simp: getAccessRights_def truthy_def intro: filter_cong)
  have allkeys: "list_all (\<lambda>a. id_ar a \<noteq> None) ?found"
    unfolding found using keysOk_keyed[OF keys] by (auto simp: list_all_iff)
  have del: "deleteAccessRows ?found (accessRights ?db1) =
       (None, (accessRights db)\<lparr>rows := ?kept\<rparr>)"
  proof -
    have d: "distinct (map id_ar (rows (accessRights db)))"
      using keys by (simp add: keysOk_def)
    have "deleteAccessRows ?found (accessRights ?db1) =
        (None, (accessRights ?db1)\<lparr>rows :=
           filter (\<lambda>w. id_ar w \<notin> id_ar ` set ?found) (rows (accessRights ?db1))\<rparr>)"
      by (rule deleteAccessRows_keyed[OF allkeys])
    also have "filter (\<lambda>w. id_ar w \<notin> id_ar ` set ?found) (rows (accessRights ?db1)) = ?kept"
      unfolding found using filter_by_key_image[OF d] by simp
    finally show ?thesis by simp
  qed
  let ?db2 = "?db1\<lparr>accessRights := (accessRights db)\<lparr>rows := ?kept\<rparr>\<rparr>"
  show ?thesis
  proof (cases "fst stamp \<in> id_pc ` set (pendingChanges db)")
    case False
    have res: "deleteRoom stamp rid db =
        (True, ?db2\<lparr>pendingChanges := insort_key id_pc ?p (pendingChanges db)\<rparr>)"
      unfolding deleteRoom_def Let_def del
      using False by (simp add: addPendingChange_fresh)
    show ?thesis unfolding res using False
      by (auto simp: getRoomById_def store_get_def store_delete_def find_None_iff
               intro: filter_cong)
  next
    case True
    have res: "deleteRoom stamp rid db = (False, ?db2)"
      unfolding deleteRoom_def Let_def del
      using True by (simp add: addPendingChange_taken)
    show ?thesis unfolding res using True
      by (auto simp: getRoomById_def store_get_def store_delete_def find_None_iff
               intro: filter_cong)
  qed
qed

theorem deleteRoom_effect_witness:
  "keysOk id_ar (accessRights dbGranted)
   \<and> getRoomById 1 dbGranted \<noteq> None
   \<and> fst (deleteRoom (''c5'', 1004) 1 dbGranted) = True
   \<and> getRoomById 1 (snd (deleteRoom (''c5'', 1004) 1 dbGranted)) = None
   \<and> filter (\<lambda>a. roomId a = 1)
        (rows (accessRights (snd (deleteRoom (''c5'', 1004) 1 dbGranted)))) = []
   \<and> fst (deleteRoom (''c1'', 1004) 1 dbGranted) = False
   \<and> getRoomById 1 (snd (deleteRoom (''c1'', 1004) 1 dbGranted)) = None"
proof -
  have k: "keysOk id_ar (accessRights dbGranted)" by code_simp
  have r: "getRoomById 1 dbGranted \<noteq> None" by code_simp
  have f: "fst (''c5'', 1004::int) \<notin> id_pc ` set (pendingChanges dbGranted)" by code_simp
  have t: "fst (''c1'', 1004::int) \<in> id_pc ` set (pendingChanges dbGranted)" by code_simp
  from deleteRoom_effect[OF k, of "(''c5'', 1004)" 1]
       deleteRoom_effect[OF k, of "(''c1'', 1004)" 1] k r f t
  show ?thesis by simp
qed

text \<open>For an id different from 0 the AccessRight rows of the other rooms are kept.\<close>

lemma deleteRoom_keeps_other_rows:
  assumes keys: "keysOk id_ar (accessRights db)" and nz: "rid \<noteq> 0"
  shows "rows (accessRights (snd (deleteRoom stamp rid db))) =
           filter (\<lambda>a. roomId a \<noteq> rid) (rows (accessRights db))"
proof -
  let ?db1 = "db\<lparr>rooms := store_delete id_room rid (rooms db)\<rparr>"
  let ?found = "getAccessRights (Some rid) None ?db1"
  have found: "?found = filter (\<lambda>a. roomId a = rid) (rows (accessRights db))"
    using nz by (auto simp: getAccessRights_def truthy_def intro: filter_cong)
  have allkeys: "list_all (\<lambda>a. id_ar a \<noteq> None) ?found"
    unfolding found using keysOk_keyed[OF keys] by (auto simp: list_all_iff)
  have d: "distinct (map id_ar (rows (accessRights db)))"
    using keys by (simp add: keysOk_def)
  have "deleteAccessRows ?found (accessRights ?db1) =
      (None, (accessRights ?db1)\<lparr>rows :=
         filter (\<lambda>w. id_ar w \<notin> id_ar ` set ?found) (rows (accessRights ?db1))\<rparr>)"
    by (rule deleteAccessRows_keyed[OF allkeys])
  also have "filter (\<lambda>w. id_ar w \<notin> id_ar ` set ?found) (rows (accessRights ?db1)) =
      filter (\<lambda>a. roomId a \<noteq> rid) (rows (accessRights db))"
    unfolding found using filter_by_key_image[OF d] by simp
  finally have del: "deleteAccessRows ?found (accessRights ?db1) =
      (None, (accessRights ?db1)\<lparr>rows :=
         filter (\<lambda>a. roomId a \<noteq> rid) (rows (accessRights db))\<rparr>)" .
  show ?thesis
    unfolding deleteRoom_def Let_def del
    by (auto simp: addPendingChange_def Let_def split: sum.splits)
qed

section \<open>Creating rooms and recording changes\<close>

text \<open>
  C3. \<open>createRoom\<close> is claimed to reject a request whose \<open>(number, building)\<close> is
  already stored, leaving store and outbox as they were. The rooms store has no unique
  index (the SQL schemas of the repository declare \<open>(number, building)\<close> unique, and
  the employees and accessRights stores do carry their unique indexes) and
  \<open>createRoom\<close> makes no check: after room 101 of building 1 has been created,
  creating it again succeeds with the fresh id 2, the store holds two rooms
  \<open>(''101'', 1)\<close>, and the outbox has two entries instead of one.
\<close>

theorem createRoom_accepts_duplicate:
  "map (\<lambda>r. (id_room r, number r, building r)) (rows (rooms dbRoom)) = [(Some 1, ''101'', 1)]
   \<and> fst (createRoom (''c2'', 1001) exRoom dbRoom) = Inr (exRoom\<lparr>id_room := Some 2\<rparr>)
   \<and> map (\<lambda>r. (id_room r, number r, building r))
        (rows (rooms (snd (createRoom (''c2'', 1001) exRoom dbRoom))))
       = [(Some 1, ''101'', 1), (Some 2, ''101'', 1)]
   \<and> length (pendingChanges dbRoom) = 1
   \<and> length (pendingChanges (snd (createRoom (''c2'', 1001) exRoom dbRoom))) = 2"
  by code_simp

text \<open>
  C4. Every successful mutating call is claimed to add exactly one pending change.
  One successful \<open>grantAccess(1, 1)\<close> on the database with room 1 and employee 1 adds
  two: \<open>update employee\<close>, recorded by the \<open>updateEmployee\<close> it calls to store the new
  \<open>accessRooms\<close>, and then \<open>grant access\<close>.
\<close>

theorem grantAccess_records_two_changes:
  "fst (grantAccess (''c3'', 1002) (''c4'', 1003) 1 1 dbStaff) = True
   \<and> map (\<lambda>p. (operation p, entityType p)) (pendingChanges dbStaff)
       = [(Create, RoomEntity), (Create, EmployeeEntity)]
   \<and> map (\<lambda>p. (operation p, entityType p))
        (pendingChanges (snd (grantAccess (''c3'', 1002) (''c4'', 1003) 1 1 dbStaff)))
       = [(Create, RoomEntity), (Create, EmployeeEntity), (Update, EmployeeEntity),
          (Grant, AccessEntity)]"
  by code_simp

section \<open>Replaying the outbox\<close>

text \<open>\<open>processChange\<close> throws only for a \<open>create\<close> of a room or an employee whose
  request fails: the other methods of ServerApiService catch the failure and return
  \<open>false\<close>, which \<open>processChange\<close> does not read.\<close>

lemma processChange_throws_iff:
  "fst (processChange net change n) = False \<longleftrightarrow>
     operation change = Create
     \<and> (entityType change = RoomEntity \<and> \<not> fst (net ApiCreateRoom (data change) n)
        \<or> entityType change = EmployeeEntity
           \<and> \<not> fst (net ApiCreateEmployee (data change) n))"
  by (cases "operation change"; cases "entityType change")
     (simp_all add: processChange_def replay_def uncaught_def caught_def Let_def)

text \<open>After the loop the pending store holds the changes whose id was not completed;
  with a remote without state, those are the changes on which \<open>processChange\<close>
  throws.\<close>

lemma processAll_pending:
  "pendingChanges (fst (processAll net cs (db, n))) =
     filter (\<lambda>p. id_pc p \<notin> set (completedIds net cs n)) (pendingChanges db)"
proof (induction cs arbitrary: db n)
  case Nil
  then show ?case by simp
next
  case (Cons c cs)
  show ?case
  proof (cases "fst (processChange net c n)")
    case True
    then show ?thesis
      using Cons.IH[of "snd (deletePendingChange (id_pc c) db)" "snd (processChange net c n)"]
      by (auto simp: Let_def deletePendingChange_def intro: filter_cong)
  next
    case False
    then show ?thesis
      using Cons.IH[of db "snd (processChange net c n)"]
      by (simp add: Let_def)
  qed
qed

lemma completedIds_stateless:
  "set (completedIds (stateless ok) cs ()) =
     id_pc ` {c \<in> set cs. fst (processChange (stateless ok) c ())}"
  by (induction cs) (auto simp: Let_def)

lemma syncToServer_keeps_only_thrown:
  assumes "online" and "\<not> isSyncing svc" and "\<not> readRejects faults"
    and d: "distinct (map id_pc (pendingChanges db))"
  shows "pendingChanges (fst (snd (snd (syncToServer online now faults (stateless ok)
            (svc, db, ()))))) =
     filter (\<lambda>p. \<not> fst (processChange (stateless ok) p ())) (pendingChanges db)"
proof (cases "pendingChanges db = []")
  case True
  then show ?thesis using assms by (simp add: syncToServer_def getPendingChanges_def)
next
  case False
  have inj: "inj_on id_pc (set (pendingChanges db))" using d by (simp add: distinct_map)
  have "pendingChanges (fst (snd (snd (syncToServer online now faults (stateless ok)
            (svc, db, ()))))) =
      filter (\<lambda>p. id_pc p \<notin> set (completedIds (stateless ok)
          (sort_key timestamp (pendingChanges db)) ())) (pendingChanges db)"
    using assms False
    by (simp add: syncToServer_def getPendingChanges_def Let_def processAll_pending)
  also have "\<dots> = filter (\<lambda>p. \<not> fst (processChange (stateless ok) p ())) (pendingChanges db)"
  proof (rule filter_cong[OF refl])
    fix p assume p: "p \<in> set (pendingChanges db)"
    show "(id_pc p \<notin> set (completedIds (stateless ok) (sort_key timestamp (pendingChanges db)) ()))
        = (\<not> fst (processChange (stateless ok) p ()))"
      using p inj by (auto simp: completedIds_stateless dest: inj_onD)
  qed
  finally show ?thesis .
qed

text \<open>
  C5. A pending change whose remote replay fails is claimed to stay queued. With an
  outbox of three entries (create room, update room, create employee, in timestamp
  order) and a remote on which only the request of entry 2 (\<open>PUT rooms/1\<close>) fails,
  \<open>processChange\<close> returns normally for all three, \<open>syncToServer\<close> returns \<open>true\<close>
  and the outbox is empty afterwards: entry 2 has been discarded, not kept.
\<close>

theorem syncToServer_drops_failed_update:
  "map (\<lambda>p. (operation p, entityType p)) (sort_key timestamp (getPendingChanges dbOutbox))
     = [(Create, RoomEntity), (Update, RoomEntity), (Create, EmployeeEntity)]
   \<and> map (\<lambda>p. fst (failingUpdate ApiUpdateRoom (data p) ()))
        (filter (\<lambda>p. operation p = Update) (getPendingChanges dbOutbox)) = [False]
   \<and> map (\<lambda>p. fst (processChange failingUpdate p ()))
        (sort_key timestamp (getPendingChanges dbOutbox)) = [True, True, True]
   \<and> fst (syncToServer True 5000 noFaults failingUpdate (idle, dbOutbox, ())) = True
   \<and> getPendingChanges (fst (snd (snd (syncToServer True 5000 noFaults failingUpdate
        (idle, dbOutbox, ()))))) = []"
  by code_simp

theorem syncToServer_drops_failed_update_witness:
  "pendingChanges (fst (snd (snd (syncToServer True 5000 noFaults failingUpdate
      (idle, dbOutbox, ()))))) = []"
  using syncToServer_drops_failed_update by (simp add: getPendingChanges_def)

section \<open>Granting and revoking\<close>

text \<open>
  C6. After \<open>grantAccess(e, r)\<close> has been called twice there is to be exactly one
  AccessRight row for \<open>(e, r)\<close> and \<open>r\<close> exactly once in \<open>e.accessRooms\<close>. The check
  commented \<open>Check if access already exists\<close> is \<open>getAccessRights(roomId, employeeId)\<close>,
  which reads a room id of 0 as a missing argument. Room 0 (imported from the
  remote) and employee 1 are stored, the database is well-formed and the invariant
  holds; employee 1 has the access to room 1 and none to room 0. \<open>grantAccess(1, 0)\<close>
  runs the by-employee query, finds the row \<open>(1, 1)\<close> and returns \<open>true\<close> as if the
  access were granted. After two calls the database is unchanged: there is no row for
  \<open>(1, 0)\<close>, where the claim has exactly one, and 0 is not in \<open>accessRooms\<close>, where
  the claim has it once.
\<close>

theorem grantAccess_zero_room_not_granted:
  "getRoomById 0 dbZero \<noteq> None
   \<and> getEmployeeById 1 dbZero \<noteq> None
   \<and> wellFormed dbZero
   \<and> accessRoomsAgree dbZero
   \<and> fst (grantAccess (''c6'', 1005) (''c7'', 1006) 1 0 dbZero) = True
   \<and> grantAccess (''c8'', 1007) (''c9'', 1008) 1 0
         (snd (grantAccess (''c6'', 1005) (''c7'', 1006) 1 0 dbZero)) = (True, dbZero)
   \<and> filter (\<lambda>a. employeeId a = 1 \<and> roomId a = 0) (rows (accessRights dbZero)) = []
   \<and> map (\<lambda>a. (employeeId a, roomId a)) (rows (accessRights dbZero)) = [(1, 1)]
   \<and> map accessRooms (rows (employees dbZero)) = [[1]]"
  by code_simp

text \<open>
  For ids different from 0 the check is the exact-pair query, and the claim holds
  where it can: in a well-formed database whose key generator is not exhausted, for a
  stored employee \<open>e\<close> whose \<open>accessRooms\<close> holds \<open>r\<close> at most once and at least as
  often as the pair \<open>(e, r)\<close> has rows.
\<close>

lemma grantAccess_twice_nonzero:
  assumes wf: "wellFormed db" and e0: "eid \<noteq> 0" and r0: "rid \<noteq> 0"
    and gen: "keyGen (accessRights db) \<le> maxKey"
    and emp: "getEmployeeById eid db = Some emp"
    and once: "count_list (accessRooms emp) rid \<le> 1"
    and cached: "length (getAccessRights (Some rid) (Some eid) db)
                   \<le> count_list (accessRooms emp) rid"
  shows "grantAccess s3 s4 eid rid (snd (grantAccess s1 s2 eid rid db))
           = (True, snd (grantAccess s1 s2 eid rid db))
    \<and> length (filter (\<lambda>a. employeeId a = eid \<and> roomId a = rid)
         (rows (accessRights (snd (grantAccess s1 s2 eid rid db))))) = 1
    \<and> map_option (\<lambda>x. count_list (accessRooms x) rid)
         (getEmployeeById eid (snd (grantAccess s1 s2 eid rid db))) = Some 1"
proof -
  let ?P = "\<lambda>a. employeeId a = eid \<and> roomId a = rid"
  let ?db1 = "snd (grantAccess s1 s2 eid rid db)"
  have q: "\<And>d. getAccessRights (Some rid) (Some eid) d = filter ?P (rows (accessRights d))"
    using e0 r0 by (simp add: getAccessRights_def truthy_def)
  have le1: "length (filter ?P (rows (accessRights db))) \<le> 1"
  proof -
    have d: "distinct (map (\<lambda>a. (employeeId a, roomId a)) (rows (accessRights db)))"
      using wf by (simp add: wellFormed_def)
    have "length (filter (\<lambda>a. (employeeId a, roomId a) = (eid, rid))
        (rows (accessRights db))) \<le> 1"
      by (rule distinct_filter_le1[OF d])
    then show ?thesis by simp
  qed
  have main: "length (filter ?P (rows (accessRights ?db1))) = 1
     \<and> map_option (\<lambda>x. count_list (accessRooms x) rid) (getEmployeeById eid ?db1) = Some 1"
  proof (cases "filter ?P (rows (accessRights db)) = []")
    case False
    then have same: "?db1 = db" by (simp add: grantAccess_def q)
    from False le1 have one: "length (filter ?P (rows (accessRights db))) = 1"
      by (cases "filter ?P (rows (accessRights db))") auto
    then have "count_list (accessRooms emp) rid = 1"
      using cached once unfolding q by linarith
    with one show ?thesis using emp by (simp add: same)
  next
    case True
    let ?k = "keyGen (accessRights db)"
    let ?row = "\<lparr>id_ar = Some ?k, employeeId = eid, roomId = rid\<rparr>"
    let ?st = "\<lparr>rows = insertRow id_ar ?k ?row (rows (accessRights db)), keyGen = ?k + 1\<rparr>"
    have nokey: "\<not> hasKey id_ar ?k (rows (accessRights db))"
      using wf gen by (simp add: wellFormed_def keysOk_no_keyGen)
    have noclash: "\<not> list_ex (accessClash \<lparr>id_ar = None, employeeId = eid, roomId = rid\<rparr>)
        (rows (accessRights db))"
      using True by (auto simp: list_ex_iff accessClash_def filter_empty_conv)
    have add: "store_add id_ar setAccessId accessClash
        \<lparr>id_ar = None, employeeId = eid, roomId = rid\<rparr> (accessRights db) = Inr (?k, ?st)"
      using nokey noclash gen by (simp add: store_add_def setAccessId_def Let_def)
    let ?d1 = "db\<lparr>accessRights := ?st\<rparr>"
    have emp1: "getEmployeeById eid ?d1 = Some emp"
      using emp by (simp add: getEmployeeById_def)
    let ?emp' = "emp\<lparr>accessRooms := accessRooms emp @ [rid]\<rparr>"
    let ?est = "\<lparr>rows = insertRow id_emp eid ?emp'
                        (filter (\<lambda>w. id_emp w \<noteq> Some eid) (rows (employees db))),
              keyGen = bumpKeyGen eid (keyGen (employees db))\<rparr>"
    have key: "id_emp emp = Some eid"
      using emp find_key[of id_emp eid "rows (employees db)" emp]
      by (simp add: getEmployeeById_def store_get_def)
    have put: "store_put id_emp setEmployeeId employeeClash ?emp' (employees ?d1)
        = Inr (eid, ?est)"
      using store_put_employee[of "employees db" eid emp ?emp'] wf emp key
      by (simp add: wellFormed_def getEmployeeById_def)
    note upd = updateEmployee_stores[OF put, of s1]
    show ?thesis
    proof (cases "rid \<in> set (accessRooms emp)")
      case in_cache: True
      have acc: "accessRights ?db1 = ?st" and emps: "employees ?db1 = employees db"
        using True in_cache emp1 add
        by (auto simp: grantAccess_def q Let_def addPendingChange_def)
      have "count_list (accessRooms emp) rid = 1"
        using in_cache once by (auto simp: count_list_0_iff dest!: le_imp_less_or_eq)
      then show ?thesis using True emp emps
        by (simp add: acc filter_insertRow_length getEmployeeById_def)
    next
      case not_cached: False
      have acc: "accessRights ?db1 = ?st" and emps: "employees ?db1 = ?est"
        using True not_cached emp1 add upd
        by (auto simp: grantAccess_def q Let_def addPendingChange_def)
      have "find (\<lambda>w. id_emp w = Some eid) (rows ?est) = Some ?emp'"
        using key by (simp add: find_insertRow hasKey_def list_ex_iff)
      moreover have "count_list (accessRooms ?emp') rid = 1"
        using not_cached by (simp add: count_list_0_iff)
      ultimately show ?thesis using True
        by (simp add: acc emps filter_insertRow_length getEmployeeById_def store_get_def)
    qed
  qed
  then have "getAccessRights (Some rid) (Some eid) ?db1 \<noteq> []"
    unfolding q by (auto simp del: filter_empty_conv)
  then have "grantAccess s3 s4 eid rid ?db1 = (True, ?db1)"
    by (simp add: grantAccess_def)
  with main show ?thesis by simp
qed

text \<open>
  \<open>updateEmployee\<close> and \<open>createEmployee\<close> write \<open>accessRooms\<close> as given, so a stored
  list need not meet the last condition, and \<open>grantAccess\<close> does not repair it: when
  the row \<open>(1, 1)\<close> exists and employee 1 has been saved with \<open>accessRooms = []\<close>,
  \<open>grantAccess(1, 1)\<close> finds the row, returns \<open>true\<close> and leaves \<open>accessRooms\<close>
  empty, however often it is called.
\<close>

lemma grantAccess_keeps_stale_accessRooms:
  "wellFormed dbStale
   \<and> map (\<lambda>a. (employeeId a, roomId a)) (rows (accessRights dbStale)) = [(1, 1)]
   \<and> map (\<lambda>e. (id_emp e, accessRooms e = [])) (rows (employees dbStale)) = [(Some 1, True)]
   \<and> grantAccess (''c6'', 1005) (''c7'', 1006) 1 1 dbStale = (True, dbStale)"
  by code_simp

text \<open>
  C7. \<open>revokeAccess(e, r)\<close> on a pair without an AccessRight row is to change nothing.
  The rows to delete, commented \<open>Find the access right\<close>, come from
  \<open>getAccessRights(roomId, employeeId)\<close>, which reads a room id of 0 as a missing
  argument. Room 0 (imported from the remote) and employee 1 are stored, the
  database is well-formed, the invariant holds and there is no row for \<open>(1, 0)\<close>;
  \<open>revokeAccess(1, 0)\<close> runs the by-employee query, deletes the row \<open>(1, 1)\<close>, leaves
  \<open>accessRooms = [1]\<close> on the employee (so the invariant is lost) and records two
  pending changes.
\<close>

theorem revokeAccess_zero_room_deletes_rows:
  "getRoomById 0 dbZero \<noteq> None
   \<and> getEmployeeById 1 dbZero \<noteq> None
   \<and> wellFormed dbZero
   \<and> accessRoomsAgree dbZero
   \<and> filter (\<lambda>a. employeeId a = 1 \<and> roomId a = 0) (rows (accessRights dbZero)) = []
   \<and> fst (revokeAccess (''c6'', 1005) (''c7'', 1006) 1 0 dbZero) = True
   \<and> map (\<lambda>a. (employeeId a, roomId a)) (rows (accessRights dbZero)) = [(1, 1)]
   \<and> rows (accessRights (snd (revokeAccess (''c6'', 1005) (''c7'', 1006) 1 0 dbZero))) = []
   \<and> map accessRooms
        (rows (employees (snd (revokeAccess (''c6'', 1005) (''c7'', 1006) 1 0 dbZero))))
       = [[1]]
   \<and> \<not> accessRoomsAgree (snd (revokeAccess (''c6'', 1005) (''c7'', 1006) 1 0 dbZero))
   \<and> length (pendingChanges dbZero) = 5
   \<and> length (pendingChanges (snd (revokeAccess (''c6'', 1005) (''c7'', 1006) 1 0 dbZero)))
       = 7"
  by code_simp

text \<open>For ids different from 0 the query is the exact-pair query, and revoking a pair
  that has no row returns \<open>true\<close> and leaves the database as it is.\<close>

lemma revokeAccess_absent_pair:
  assumes "eid \<noteq> 0" and "rid \<noteq> 0"
    and "filter (\<lambda>a. employeeId a = eid \<and> roomId a = rid) (rows (accessRights db)) = []"
  shows "revokeAccess stamp1 stamp2 eid rid db = (True, db)"
proof -
  have "getAccessRights (Some rid) (Some eid) db =
      filter (\<lambda>a. employeeId a = eid \<and> roomId a = rid) (rows (accessRights db))"
    using assms(1,2) by (simp add: getAccessRights_def truthy_def)
  with assms(3) show ?thesis by (simp add: revokeAccess_def)
qed

section \<open>The sync cycle\<close>

text \<open>
  C8, as claimed: \<open>syncToServer\<close> returns \<open>true\<close> whenever the outbox was non-empty
  and the network reachable. The body runs inside \<open>try { ... } catch { return false }\<close>:
  online and idle, with a non-empty outbox and a remote that accepts every request,
  the call returns \<open>false\<close> when \<open>localStorage.setItem\<close> throws after the loop (the
  entries have been replayed and removed by then), and when the read of the pending
  store fails.
\<close>

theorem syncToServer_storage_fault:
  "getPendingChanges dbOutbox \<noteq> []
   \<and> isSyncing idle = False
   \<and> fst (syncToServer True 5000 quotaExceeded succeedingAll (idle, dbOutbox, ())) = False
   \<and> getPendingChanges (fst (snd (snd (syncToServer True 5000 quotaExceeded succeedingAll
        (idle, dbOutbox, ()))))) = []
   \<and> fst (syncToServer True 5000 readFailure succeedingAll (idle, dbOutbox, ())) = False"
  by code_simp

text \<open>
  C8, amended. \<open>syncToServer\<close> returns \<open>false\<close> and touches nothing (service state,
  database and remote are as before, so no outbox entry was processed) when the client
  is offline or a sync is in progress. Online and idle it returns \<open>true\<close>, whatever
  the remote answers for the entries, unless the read of the pending store fails or,
  the outbox being non-empty, \<open>localStorage.setItem\<close> throws after the loop; in
  these two cases the \<open>catch\<close> returns \<open>false\<close>. In every case it is idle again
  afterwards.
\<close>

theorem syncToServer_result:
  "(\<not> online \<or> isSyncing svc \<longrightarrow>
      syncToServer online now faults net (svc, db, n) = (False, svc, db, n))
   \<and> (online \<and> \<not> isSyncing svc \<longrightarrow>
      fst (syncToServer online now faults net (svc, db, n))
        = (\<not> readRejects faults \<and> (getPendingChanges db = [] \<or> \<not> setItemThrows faults))
      \<and> isSyncing (fst (snd (syncToServer online now faults net (svc, db, n)))) = False)"
  by (simp add: syncToServer_def Let_def)

theorem syncToServer_result_witness:
  "syncToServer False 5000 noFaults failingAll (idle, dbOutbox, ())
       = (False, idle, dbOutbox, ())
   \<and> syncToServer True 5000 noFaults failingAll (idle\<lparr>isSyncing := True\<rparr>, dbOutbox, ())
       = (False, idle\<lparr>isSyncing := True\<rparr>, dbOutbox, ())
   \<and> getPendingChanges dbOutbox \<noteq> []
   \<and> map (\<lambda>p. fst (processChange failingAll p ())) (getPendingChanges dbOutbox)
       = [False, True, False]
   \<and> fst (syncToServer True 5000 noFaults failingAll (idle, dbOutbox, ())) = True
   \<and> fst (syncToServer True 5000 quotaExceeded failingAll (idle, dbOutbox, ())) = False
   \<and> fst (syncToServer True 5000 readFailure failingAll (idle, dbOutbox, ())) = False
   \<and> fst (syncToServer True 5000 quotaExceeded failingAll (idle, emptyDatabase, ())) = True"
proof -
  have a: "syncToServer False 5000 noFaults failingAll (idle, dbOutbox, ())
       = (False, idle, dbOutbox, ())"
    using syncToServer_result[of False idle 5000 noFaults failingAll dbOutbox "()"] by simp
  have b: "syncToServer True 5000 noFaults failingAll (idle\<lparr>isSyncing := True\<rparr>, dbOutbox, ())
       = (False, idle\<lparr>isSyncing := True\<rparr>, dbOutbox, ())"
    using syncToServer_result[of True "idle\<lparr>isSyncing := True\<rparr>" 5000 noFaults failingAll
        dbOutbox "()"]
    by simp
  have i: "\<not> isSyncing idle" by (simp add: idle_def)
  have d: "getPendingChanges dbOutbox \<noteq> []" by code_simp
  have z: "getPendingChanges emptyDatabase = []" by code_simp
  have c: "fst (syncToServer True 5000 noFaults failingAll (idle, dbOutbox, ())) = True"
    using syncToServer_result[of True idle 5000 noFaults failingAll dbOutbox "()"] i
    by (simp add: noFaults_def)
  have q: "fst (syncToServer True 5000 quotaExceeded failingAll (idle, dbOutbox, ())) = False"
    using syncToServer_result[of True idle 5000 quotaExceeded failingAll dbOutbox "()"] i d
    by (simp add: quotaExceeded_def)
  have r: "fst (syncToServer True 5000 readFailure failingAll (idle, dbOutbox, ())) = False"
    using syncToServer_result[of True idle 5000 readFailure failingAll dbOutbox "()"] i
    by (simp add: readFailure_def)
  have y: "fst (syncToServer True 5000 quotaExceeded failingAll (idle, emptyDatabase, ()))
      = True"
    using syncToServer_result[of True idle 5000 quotaExceeded failingAll emptyDatabase "()"] i z
    by (simp add: quotaExceeded_def)
  have e: "map (\<lambda>p. fst (processChange failingAll p ())) (getPendingChanges dbOutbox)
       = [False, True, False]" by code_simp
  from a b c d e q r y show ?thesis by simp
qed

text \<open>The three fetches of \<open>syncFromServer\<close> are separate: when the Room fetch rejects
  and the other two succeed, the employees and access rights are imported into an
  empty database, the rooms store is untouched and \<open>lastSyncTime\<close> is set.\<close>

lemma syncFromServer_isolates_room_failure:
  "map_option (\<lambda>r. (fst r, fst (snd r), rooms (snd (snd r)),
                     rows (employees (snd (snd r))), rows (accessRights (snd (snd r)))))
     (syncFromServer True 5000 noFaults (''c1'', 1000) (''c2'', 1001) (''c3'', 1002)
        Rejects (Items serverEmployees) (Items serverAccessRights) (idle, emptyDatabase))
   = Some (True, \<lparr>isSyncing = False, lastSyncTime = 5000\<rparr>, rooms emptyDatabase,
           serverEmployees, serverAccessRights)"
  by code_simp

text \<open>
  C9. \<open>lastSyncTime\<close> is claimed to be updated if and only if at least one entity type
  was imported. The test in the code is on the fetched lists, not on the imports: the
  database already holds room 1 (created locally), the remote returns room 1, the
  other two fetches reject; \<open>bulkImportRooms\<close> fails with ConstraintError on the key
  1, its transaction is undone, the failure is caught and logged. Nothing was
  imported (the database is unchanged), and \<open>lastSyncTime\<close> is set to the new time.
\<close>

theorem syncFromServer_stamps_failed_import:
  "fst (bulkImportRooms (''c2'', 1001) serverRooms dbRoom) = Inl ConstraintError
   \<and> lastSyncTime idle = 0
   \<and> syncFromServer True 5000 noFaults (''c2'', 1001) (''c3'', 1002) (''c4'', 1003)
        (Items serverRooms) Rejects Rejects (idle, dbRoom)
      = Some (True, \<lparr>isSyncing = False, lastSyncTime = 5000\<rparr>, dbRoom)"
  by code_simp

theorem syncFromServer_stamps_failed_import_witness:
  "map_option (\<lambda>r. (lastSyncTime (fst (snd r)), snd (snd r) = dbRoom))
     (syncFromServer True 5000 noFaults (''c2'', 1001) (''c3'', 1002) (''c4'', 1003)
        (Items serverRooms) Rejects Rejects (idle, dbRoom))
   = Some (5000, True)"
  using syncFromServer_stamps_failed_import by simp

section \<open>Queries: an id of 0 reads as an absent argument\<close>

text \<open>
  C10. In the query operations an argument equal to 0 selects the same branch as a
  missing argument: \<open>getAccessRights(0, employeeId)\<close> is the by-employee query
  \<open>getAccessRights(undefined, employeeId)\<close>, \<open>getAccessRights(roomId, 0)\<close> is the
  by-room query, \<open>getAccessRights(0, 0)\<close> is the whole relation, and \<open>getRooms(0)\<close>
  is the list of all rooms.
\<close>

theorem zero_id_reads_as_absent:
  "getAccessRights (Some 0) eid db = getAccessRights None eid db
   \<and> getAccessRights rid (Some 0) db = getAccessRights rid None db
   \<and> getAccessRights (Some 0) (Some e) db =
       (if e = 0 then rows (accessRights db)
        else filter (\<lambda>a. employeeId a = e) (rows (accessRights db)))
   \<and> getAccessRights (Some r) (Some 0) db =
       (if r = 0 then rows (accessRights db)
        else filter (\<lambda>a. roomId a = r) (rows (accessRights db)))
   \<and> getAccessRights (Some 0) (Some 0) db = rows (accessRights db)
   \<and> getRooms (Some 0) db = rows (rooms db)
   \<and> getRooms (Some 0) db = getRooms None db"
  by (simp add: getAccessRights_def getRooms_def truthy_def)

end
